theory Spec2Isabelle
  imports Main "HOL-Library.Char_ord" "HOL-Library.List_Lexorder" "HOL-Library.Multiset"
    "HOL-Library.AList"
begin

section \<open>Data model of \<open>pants.goal.context\<close>\<close>

text \<open>
  A target is identified with its address (\<open>Target.__eq__\<close> and \<open>__hash__\<close> go by address);
  an address is the string \<open>spec_path:target_name\<close>.
\<close>

type_synonym address = string

definition spec_path :: "address \<Rightarrow> string" where
  "spec_path a = takeWhile (\<lambda>c. c \<noteq> CHR '':'') a"

text \<open>
  The handle a context registers on the build graph: \<open>self._clear_target_cache_handle\<close>,
  the bound method \<open>Context._clear_target_cache\<close>.
\<close>

datatype callback = ClearTargetCacheHandle

text \<open>
  Modelled from the spec: \<open>pants.build_graph.build_graph.BuildGraph\<close> is not among the
  sources. The Target Graph owns the nodes and their ordered dependency edges, tracks which
  targets are synthetic and their derived-from back-reference (a non-owning association kept
  apart from the dependency edges), and holds the list of invalidation callbacks.
\<close>

record build_graph =
  target_dependencies_by_address :: "(address \<times> address list) list"
  synthetic_addresses :: "address list"
  derived_from_by_derivative :: "(address \<times> address) list"
  invalidation_callbacks :: "callback list"

text \<open>
  The fields of \<open>Context\<close> that the operations below read or write: the build graph, the
  memoized \<open>_targets_cache\<close> (a dict keyed by \<open>tuple(sorted(kwargs))\<close>), the target roots,
  the \<open>acquired\<close> flag of the workdir file lock, the build root, the registered source
  roots and the directories present on disk.
\<close>

record Context =
  build_graph :: build_graph
  targets_cache :: "string list \<rightharpoonup> address list"
  target_roots :: "address list"
  lock_acquired :: bool
  buildroot :: string
  source_roots :: "string list"
  directories :: "string list"

section \<open>The workdir lock\<close>

text \<open>
  Modelled from the spec: \<open>OwnerPrintingInterProcessFileLock\<close> is not among the sources; the
  process-wide build lock is a flag \<open>acquired\<close> that \<open>acquire\<close> sets and \<open>release\<close> resets.
\<close>

definition lock_acquire :: "Context \<Rightarrow> Context" where
  "lock_acquire c = c\<lparr>lock_acquired := True\<rparr>"

definition lock_release :: "Context \<Rightarrow> Context" where
  "lock_release c = c\<lparr>lock_acquired := False\<rparr>"

text \<open>\<open>Context.acquire_lock\<close>; the argument is \<open>self.options.for_global_scope().lock\<close>.\<close>

definition acquire_lock :: "bool \<Rightarrow> Context \<Rightarrow> Context" where
  "acquire_lock lock_option c =
     (if lock_option then (if \<not> lock_acquired c then lock_acquire c else c) else c)"

text \<open>\<open>Context.release_lock\<close>: the updated context and the returned flag.\<close>

definition release_lock :: "Context \<Rightarrow> Context \<times> bool" where
  "release_lock c =
     (if \<not> lock_acquired c then (c, False)
      else (lock_release c, True))"

text \<open>\<open>Context.is_unlocked\<close>.\<close>

definition is_unlocked :: "Context \<Rightarrow> bool" where
  "is_unlocked c = (\<not> lock_acquired c)"

section \<open>The target graph\<close>

text \<open>
  Modelled from the spec: \<open>BuildGraph.dependencies_of\<close> is not among the sources. The
  declared dependencies of a target, in declaration order; an address the graph does not hold
  has none.
\<close>

definition dependencies :: "build_graph \<Rightarrow> address \<Rightarrow> address list" where
  "dependencies g a =
     (case map_of (target_dependencies_by_address g) a of None \<Rightarrow> [] | Some ds \<Rightarrow> ds)"

text \<open>
  \<open>OrderedSet.update\<close> (twitter.common.collections): every element not yet present is
  appended, in iteration order.
\<close>

definition ordered_set_update :: "'a list \<Rightarrow> 'a list \<Rightarrow> 'a list" where
  "ordered_set_update xs ys = foldl (\<lambda>acc y. if y \<in> set acc then acc else acc @ [y]) xs ys"

text \<open>
  Modelled from the spec: \<open>Target.closure_for_targets\<close> and the graph walk under it are not
  among the sources. \<open>closure(roots, postorder=false)\<close> returns the transitive dependency
  closure as an ordered set, gathered depth-first in pre-order or post-order: every target
  is expanded once; in pre-order it is emitted when it is entered, in post-order after its
  dependencies are done. The walk keeps an explicit stack of frames.
\<close>

datatype frame = Enter address | Exit address

fun frame_weight :: "frame \<Rightarrow> nat" where
  "frame_weight (Enter a) = 2"
| "frame_weight (Exit a) = 1"

function walk :: "build_graph \<Rightarrow> bool \<Rightarrow> frame list \<Rightarrow> address list \<Rightarrow> address list
                  \<Rightarrow> address list" where
  "walk g postorder [] seen out = out"
| "walk g postorder (Exit a # st) seen out =
     walk g postorder st seen (if postorder then out @ [a] else out)"
| "walk g postorder (Enter a # st) seen out =
     (if a \<in> set seen then walk g postorder st seen out
      else walk g postorder (map Enter (dependencies g a) @ Exit a # st) (a # seen)
             (if postorder then out else out @ [a]))"
  by pat_completeness auto
termination
proof (relation "inv_image (less_than <*lex*> less_than)
    (\<lambda>(g, postorder, st, seen, out).
       (card (fst ` set (target_dependencies_by_address g) - set seen),
        sum_list (map frame_weight st)))", goal_cases)
  case 1
  show ?case by (intro wf_inv_image wf_lex_prod wf_less_than)
next
  case (2 g postorder a st seen out)
  show ?case by simp
next
  case (3 g postorder a st seen out)
  then show ?case by simp
next
  case (4 g postorder a st seen out)
  let ?N = "fst ` set (target_dependencies_by_address g)"
  show ?case
  proof (cases "a \<in> ?N")
    case True
    have "?N - set (a # seen) \<subset> ?N - set seen"
      using True 4 by auto
    then have "card (?N - set (a # seen)) < card (?N - set seen)"
      by (intro psubset_card_mono) auto
    then show ?thesis by simp
  next
    case False
    then have "map_of (target_dependencies_by_address g) a = None"
      by (simp add: map_of_eq_None_iff)
    then have "dependencies g a = []"
      by (simp add: dependencies_def)
    moreover have "?N - set (a # seen) = ?N - set seen"
      using False by auto
    ultimately show ?thesis by simp
  qed
qed

text \<open>The keyword arguments handed through \<open>Context.targets\<close>: a dict from names to values.\<close>

type_synonym kwargs = "(string \<times> bool) list"

definition closure_for_targets :: "build_graph \<Rightarrow> address list \<Rightarrow> kwargs \<Rightarrow> address list" where
  "closure_for_targets g target_roots_arg kw =
     walk g (map_of kw ''postorder'' = Some True) (map Enter target_roots_arg) [] []"

text \<open>
  Modelled from the spec: \<open>BuildGraph.get_concrete_derived_from\<close> is not among the sources.
  The derived-from back-reference of a synthetic target is followed until a target that is
  derived from nothing but itself; the chain is no longer than the association.
\<close>

fun follow_derived_from :: "nat \<Rightarrow> (address \<times> address) list \<Rightarrow> address \<Rightarrow> address" where
  "follow_derived_from 0 m a = a"
| "follow_derived_from (Suc n) m a =
     (case map_of m a of
        None \<Rightarrow> a
      | Some b \<Rightarrow> if b = a then a else follow_derived_from n m b)"

definition get_concrete_derived_from :: "build_graph \<Rightarrow> address \<Rightarrow> address" where
  "get_concrete_derived_from g a =
     follow_derived_from (length (derived_from_by_derivative g)) (derived_from_by_derivative g) a"

text \<open>Modelled from the spec: \<open>BuildGraph.add_invalidation_callback\<close>.\<close>

definition add_invalidation_callback :: "callback \<Rightarrow> build_graph \<Rightarrow> build_graph" where
  "add_invalidation_callback cb g = g\<lparr>invalidation_callbacks := invalidation_callbacks g @ [cb]\<rparr>"

section \<open>The context's target cache\<close>

text \<open>\<open>Context._clear_target_cache\<close>.\<close>

definition clear_target_cache :: "Context \<Rightarrow> Context" where
  "clear_target_cache c = c\<lparr>targets_cache := Map.empty\<rparr>"

text \<open>\<open>Context._replace_targets\<close>.\<close>

definition replace_targets :: "address list \<Rightarrow> Context \<Rightarrow> Context" where
  "replace_targets roots c = clear_target_cache (c\<lparr>target_roots := roots\<rparr>)"

text \<open>
  \<open>Context.__init__\<close>, as far as the fields above go: the callback is registered on the
  build graph, the cache starts empty, the lock is not held, and the roots are installed by
  \<open>_replace_targets\<close>. The build root, the source roots and the directories on disk come
  from the environment.
\<close>

definition Context_init :: "build_graph \<Rightarrow> address list \<Rightarrow> string \<Rightarrow> string list \<Rightarrow> string list
                            \<Rightarrow> Context" where
  "Context_init g roots root srcs dirs =
     replace_targets roots
       \<lparr>build_graph = add_invalidation_callback ClearTargetCacheHandle g,
        targets_cache = Map.empty, target_roots = [], lock_acquired = False,
        buildroot = root, source_roots = srcs, directories = dirs\<rparr>"

text \<open>Running a registered callback: the only handle is the context's cache clearing.\<close>

fun run_callback :: "callback \<Rightarrow> Context \<Rightarrow> Context" where
  "run_callback ClearTargetCacheHandle c = clear_target_cache c"

definition fire_invalidation_callbacks :: "Context \<Rightarrow> Context" where
  "fire_invalidation_callbacks c =
     foldl (\<lambda>c' cb. run_callback cb c') c (invalidation_callbacks (build_graph c))"

text \<open>
  Modelled from the spec: the mutating operations of \<open>BuildGraph\<close> are not among the
  sources. An injection that would create a dependency cycle fails with a cycle error and
  leaves the graph unchanged; the new node has no edges yet, so its edges close a cycle
  exactly when the node is in the closure of its own dependencies.
\<close>

datatype graph_error = CycleError_graph | ValueError

definition contains_address :: "build_graph \<Rightarrow> address \<Rightarrow> bool" where
  "contains_address g a = (a \<in> set (map fst (target_dependencies_by_address g)))"

definition creates_cycle :: "build_graph \<Rightarrow> address \<Rightarrow> address list \<Rightarrow> bool" where
  "creates_cycle g a deps = (a \<in> set (closure_for_targets g deps []))"

text \<open>
  Modelled from the spec: \<open>inject(address, deps) -> Target\<close> adds the target or returns the
  existing one, and fails with a cycle error if the addition would create a dependency
  cycle. A structural mutation (a new node with its edges) fires the invalidation callbacks
  synchronously before returning; a call that changes nothing fires none.
\<close>

definition inject_target :: "address \<Rightarrow> address list \<Rightarrow> Context
                             \<Rightarrow> Context \<times> (graph_error + address)" where
  "inject_target a deps c =
     (let g = build_graph c
      in if contains_address g a then (c, Inr a)
         else if creates_cycle g a deps then (c, Inl CycleError_graph)
         else (fire_invalidation_callbacks
                 (c\<lparr>build_graph := g\<lparr>target_dependencies_by_address :=
                                         target_dependencies_by_address g @ [(a, deps)]\<rparr>\<rparr>),
               Inr a))"

text \<open>
  Modelled from the spec: \<open>inject_synthetic(address, type, deps, derived_from)\<close> creates a
  target that is not yet in the graph, with its dependency edges, marks it synthetic, records
  the derived-from back-reference, and fires the invalidation callbacks synchronously before
  returning. An address the graph already holds is refused (\<open>ValueError\<close>), and a
  cycle-closing injection fails with the cycle error; both leave the graph unchanged.
\<close>

definition inject_synthetic_target :: "address \<Rightarrow> address list \<Rightarrow> address option \<Rightarrow> Context
                                       \<Rightarrow> Context \<times> (graph_error + address)" where
  "inject_synthetic_target a deps derived_from c =
     (let g = build_graph c
      in if contains_address g a then (c, Inl ValueError)
         else if creates_cycle g a deps then (c, Inl CycleError_graph)
         else (fire_invalidation_callbacks
                 (c\<lparr>build_graph :=
                      g\<lparr>target_dependencies_by_address :=
                           target_dependencies_by_address g @ [(a, deps)],
                        synthetic_addresses := ordered_set_update (synthetic_addresses g) [a],
                        derived_from_by_derivative :=
                          (case derived_from of
                             None \<Rightarrow> derived_from_by_derivative g
                           | Some d \<Rightarrow> AList.update a d (derived_from_by_derivative g))\<rparr>\<rparr>),
               Inr a))"

text \<open>The structural mutations a caller can make directly on the graph of a context.\<close>

datatype graph_mutation =
  Inject address "address list"
| InjectSynthetic address "address list" "address option"

fun mutate_graph :: "graph_mutation \<Rightarrow> Context \<Rightarrow> Context \<times> (graph_error + address)" where
  "mutate_graph (Inject a deps) c = inject_target a deps c"
| "mutate_graph (InjectSynthetic a deps derived_from) c =
     inject_synthetic_target a deps derived_from c"

text \<open>\<open>os.path.join\<close> of two components (posixpath).\<close>

definition path_join :: "string \<Rightarrow> string \<Rightarrow> string" where
  "path_join a b =
     (if b \<noteq> [] \<and> hd b = CHR ''/'' then b
      else if a = [] \<or> last a = CHR ''/'' then a @ b
      else a @ ''/'' @ b)"

text \<open>
  \<open>Context.add_new_target\<close>: the cache is cleared first; the target base directory is made
  when absent and registered as a source root when \<open>source_roots.find_by_path\<close> finds none
  (that lookup is not among the sources and is taken as membership); the synthetic target is
  injected into the build graph and looked up again. When the injection raises, the call
  raises, and what was done to the context before stays done: the result is the context
  together with the error or the new target.
\<close>

definition add_new_target :: "address \<Rightarrow> string option \<Rightarrow> address list \<Rightarrow> address option
                              \<Rightarrow> Context \<Rightarrow> Context \<times> (graph_error + address)" where
  "add_new_target a target_base deps derived_from c =
     (let c1 = clear_target_cache c;
          rel_target_base = (case target_base of
                               None \<Rightarrow> spec_path a
                             | Some b \<Rightarrow> if b = [] then spec_path a else b);
          abs_target_base = path_join (buildroot c1) rel_target_base;
          c2 = (if abs_target_base \<notin> set (directories c1)
                then c1\<lparr>directories := directories c1 @ [abs_target_base]\<rparr> else c1);
          c3 = (if rel_target_base \<notin> set (source_roots c2)
                then c2\<lparr>source_roots := source_roots c2 @ [rel_target_base]\<rparr> else c2);
          (c4, injected) = inject_synthetic_target a deps derived_from c3
      in case injected of
           Inl e \<Rightarrow> (c4, Inl e)
         | Inr new_target \<Rightarrow> (c4, Inr a))"

text \<open>
  \<open>filter(predicate, targets)\<close>: with \<open>predicate=None\<close> Python keeps the truthy elements, and
  every \<open>Target\<close> object is truthy.
\<close>

definition py_filter :: "(address \<Rightarrow> bool) option \<Rightarrow> address list \<Rightarrow> address list" where
  "py_filter predicate ts = (case predicate of None \<Rightarrow> ts | Some p \<Rightarrow> filter p ts)"

text \<open>
  \<open>Context._unfiltered_targets\<close>: the closure of the target roots, extended by the closure of
  the synthetic targets whose concrete derived-from target is in that closure.
\<close>

definition unfiltered_targets :: "Context \<Rightarrow> kwargs \<Rightarrow> address list" where
  "unfiltered_targets c kw =
     (let target_set = closure_for_targets (build_graph c) (target_roots c) kw;
          synthetics = ordered_set_update []
             (filter (\<lambda>synthetic_address.
                        get_concrete_derived_from (build_graph c) synthetic_address
                          \<in> set target_set)
                     (synthetic_addresses (build_graph c)))
      in ordered_set_update target_set (closure_for_targets (build_graph c) synthetics kw))"

text \<open>
  \<open>Context.targets\<close>: the cache key is \<open>tuple(sorted(kwargs))\<close>, and sorting a dict iterates
  its keys, so the key is the sorted list of the keyword names.
\<close>

definition targets :: "Context \<Rightarrow> (address \<Rightarrow> bool) option \<Rightarrow> kwargs \<Rightarrow> Context \<times> address list" where
  "targets c predicate kw =
     (let targets_cache_key = sort (map fst kw)
      in case targets_cache c targets_cache_key of
           None \<Rightarrow>
             (let ts = unfiltered_targets c kw
              in (c\<lparr>targets_cache := (targets_cache c)(targets_cache_key \<mapsto> ts)\<rparr>,
                  py_filter predicate ts))
         | Some ts \<Rightarrow> (c, py_filter predicate ts))"

text \<open>
  \<open>Context.dependents\<close>: a \<open>defaultdict(set)\<close> that gets an entry for a target only when a
  dependency of it is added.
\<close>

definition add_dependee :: "address \<Rightarrow> address \<Rightarrow> (address \<rightharpoonup> address set) \<Rightarrow> (address \<rightharpoonup> address set)" where
  "add_dependee target dependency dependees =
     dependees(target \<mapsto> insert dependency (case dependees target of None \<Rightarrow> {} | Some s \<Rightarrow> s))"

definition dependents :: "Context \<Rightarrow> (address \<Rightarrow> bool) option \<Rightarrow> (address \<Rightarrow> bool) option
                          \<Rightarrow> Context \<times> (address \<rightharpoonup> address set)" where
  "dependents c on_predicate from_predicate =
     (let (c1, core_list) = targets c on_predicate [];
          core = set core_list;
          (c2, froms) = targets c1 from_predicate []
      in (c2,
          foldl (\<lambda>dependees target.
                   foldl (\<lambda>dependees' dependency.
                            if dependency \<in> core then add_dependee target dependency dependees'
                            else dependees')
                         dependees (dependencies (build_graph c2) target))
                Map.empty froms))"

section \<open>Reachability, and what holds during a walk\<close>

text \<open>The dependency edges of the graph and the targets reachable over them from a set.\<close>

definition edges :: "build_graph \<Rightarrow> (address \<times> address) set" where
  "edges g = {(a, b). b \<in> set (dependencies g a)}"

definition reachable :: "build_graph \<Rightarrow> address set \<Rightarrow> address set" where
  "reachable g A = (edges g)\<^sup>* `` A"

text \<open>The targets still to be entered, and the targets entered but not yet left.\<close>

definition enters :: "frame list \<Rightarrow> address set" where
  "enters st = {a. Enter a \<in> set st}"

fun exit_list :: "frame list \<Rightarrow> address list" where
  "exit_list [] = []"
| "exit_list (Exit a # st) = a # exit_list st"
| "exit_list (Enter a # st) = exit_list st"

text \<open>
  The invariant of the walk towards a set \<open>R\<close> closed under the edges: everything seen or
  pending lies in \<open>R\<close>, every dependency of a seen target is seen or pending, the open
  targets are seen and pairwise different, and the output holds, without repetition, the
  seen targets (in post-order: those already left).
\<close>

definition walk_inv :: "build_graph \<Rightarrow> bool \<Rightarrow> address set \<Rightarrow> frame list \<Rightarrow> address list
                        \<Rightarrow> address list \<Rightarrow> bool" where
  "walk_inv g postorder R st seen out \<longleftrightarrow>
     set seen \<subseteq> R \<and> enters st \<subseteq> R
     \<and> (\<forall>x\<in>set seen. \<forall>d\<in>set (dependencies g x). d \<in> set seen \<or> d \<in> enters st)
     \<and> distinct (exit_list st) \<and> set (exit_list st) \<subseteq> set seen
     \<and> distinct out
     \<and> set out = (if postorder then set seen - set (exit_list st) else set seen)"

definition walk_post :: "build_graph \<Rightarrow> address set \<Rightarrow> frame list \<Rightarrow> address list
                        \<Rightarrow> address list \<Rightarrow> bool" where
  "walk_post g R st seen res \<longleftrightarrow>
     distinct res \<and> set seen \<union> enters st \<subseteq> set res \<and> set res \<subseteq> R
     \<and> (\<forall>x\<in>set res. set (dependencies g x) \<subseteq> set res)"

text \<open>
  A cache is coherent when every entry it holds was computed by \<open>_unfiltered_targets\<close> on
  the context's present graph and roots.
\<close>

definition cache_coherent :: "Context \<Rightarrow> bool" where
  "cache_coherent c \<longleftrightarrow>
     (\<forall>key ts. targets_cache c key = Some ts \<longrightarrow> (\<exists>kw. ts = unfiltered_targets c kw))"

text \<open>Whether a target passes an optional predicate (\<open>None\<close> lets every target pass).\<close>

definition holds :: "(address \<Rightarrow> bool) option \<Rightarrow> address \<Rightarrow> bool" where
  "holds predicate t = (case predicate of None \<Rightarrow> True | Some p \<Rightarrow> p t)"

section \<open>Concrete graphs and contexts\<close>

text \<open>A library \<open>src:a\<close> that depends on \<open>src:b\<close>, with no synthetic target.\<close>

definition graph_ab :: build_graph where
  "graph_ab = \<lparr>target_dependencies_by_address = [(''src:a'', [''src:b'']), (''src:b'', [])],
               synthetic_addresses = [], derived_from_by_derivative = [],
               invalidation_callbacks = []\<rparr>"

definition context_ab :: Context where
  "context_ab = Context_init graph_ab [''src:a''] ''/buildroot'' [] []"

text \<open>
  The same two libraries beside an unrelated \<open>src:x\<close>, and a synthetic \<open>gen:s\<close> derived from
  \<open>src:b\<close> that depends on \<open>gen:t\<close>.
\<close>

definition graph_gen :: build_graph where
  "graph_gen = \<lparr>target_dependencies_by_address =
                  [(''src:a'', [''src:b'']), (''src:b'', []), (''src:x'', []),
                   (''gen:s'', [''gen:t'']), (''gen:t'', [])],
                synthetic_addresses = [''gen:s''],
                derived_from_by_derivative = [(''gen:s'', ''src:b'')],
                invalidation_callbacks = []\<rparr>"

definition context_gen :: Context where
  "context_gen = Context_init graph_gen [''src:a''] ''/buildroot'' [] []"

text \<open>The same context after a first \<open>targets()\<close> call has filled the cache.\<close>

definition context_gen_cached :: Context where
  "context_gen_cached = fst (targets context_gen None [])"

section \<open>Mapping over the subprocess pool\<close>

text \<open>Exceptions of the modelled code, as values.\<close>

datatype py_error = KeyboardInterrupt | AttributeError | WorkerError string

text \<open>
  Modelled from the spec: \<open>pants.base.worker_pool.SubprocPool\<close> is not among the sources.
  The worker pool of OS-level subprocess workers, separate from the round scheduling:
  \<open>foreground\<close> brings the pool up, submitted work keeps workers busy, and \<open>shutdown\<close>
  drains (or, when forced, kills) the in-flight work and takes the pool down, leaving no
  worker behind.
\<close>

record subproc_pool =
  pool_present :: bool
  workers_busy :: bool
  killed :: bool

definition foreground :: "subproc_pool \<Rightarrow> subproc_pool" where
  "foreground p = (if pool_present p then p else p\<lparr>pool_present := True, killed := False\<rparr>)"

definition map_async :: "subproc_pool \<Rightarrow> subproc_pool" where
  "map_async p = p\<lparr>workers_busy := True\<rparr>"

definition work_done :: "subproc_pool \<Rightarrow> subproc_pool" where
  "work_done p = p\<lparr>workers_busy := False\<rparr>"

definition shutdown :: "bool \<Rightarrow> subproc_pool \<Rightarrow> subproc_pool" where
  "shutdown force p =
     (if pool_present p
      then p\<lparr>pool_present := False, workers_busy := False, killed := force\<rparr>
      else p)"

text \<open>
  What one \<open>res.wait(60)\<close> of \<open>Context.subproc_map\<close> meets: the minute passes with the result
  still not ready, the result becomes ready, or a keyboard interrupt arrives.
\<close>

datatype wait_event = StillNotReady | BecameReady | Interrupted

text \<open>
  The polling loop \<open>while not res.ready(): res.wait(60); if not res.ready(): log.debug(...)\<close>
  over the events the waits meet; the result is whether the loop was left by an interrupt,
  and the debug log. A run whose events end before the result is ready never leaves the
  loop: \<open>None\<close>.
\<close>

fun wait_until_ready :: "wait_event list \<Rightarrow> string list \<Rightarrow> (bool \<times> string list) option" where
  "wait_until_ready [] lg = None"
| "wait_until_ready (BecameReady # es) lg = Some (False, lg)"
| "wait_until_ready (StillNotReady # es) lg =
     wait_until_ready es (lg @ [''subproc_map result still not ready...''])"
| "wait_until_ready (Interrupted # es) lg = Some (True, lg)"

text \<open>
  \<open>Context.subproc_map\<close>. The arguments are the pool, whether the result is ready at once,
  the events of the waits, what \<open>res.get()\<close> yields (the mapped results or the exception a
  worker raised) and the debug log; the result is the pool, the log and what the call returns
  or raises. The \<open>except KeyboardInterrupt\<close> clause covers the whole body.
\<close>

definition subproc_map :: "subproc_pool \<Rightarrow> bool \<Rightarrow> wait_event list \<Rightarrow> py_error + 'r list
                           \<Rightarrow> string list
                           \<Rightarrow> (subproc_pool \<times> string list \<times> (py_error + 'r list)) option" where
  "subproc_map p ready_at_once events outcome lg =
     (let p1 = map_async (foreground p)
      in case (if ready_at_once then Some (False, lg) else wait_until_ready events lg) of
           None \<Rightarrow> None
         | Some (True, lg') \<Rightarrow> Some (shutdown True p1, lg', Inl KeyboardInterrupt)
         | Some (False, lg') \<Rightarrow>
             (case outcome of
                Inl KeyboardInterrupt \<Rightarrow> Some (shutdown True p1, lg', Inl KeyboardInterrupt)
              | Inl e \<Rightarrow> Some (work_done p1, lg', Inl e)
              | Inr results \<Rightarrow> Some (work_done p1, lg', Inr results)))"

section \<open>Building the execution PEX\<close>

text \<open>
  Modelled from the spec: \<open>pants.invalidation.cache_manager\<close> is not among the sources. A
  versioned target set groups targets under one cache key (a content hash) with a validity
  status; an invalidation check partitions the versioned target sets of the given targets.
\<close>

record cache_key =
  hash :: string

record versioned_target_set =
  vts_targets :: "address list"
  vts_cache_key :: cache_key
  vts_valid :: bool

record invalidation_check =
  all_vts :: "versioned_target_set list"
  invalid_vts :: "versioned_target_set list"

text \<open>
  Modelled from the spec: \<open>VersionedTargetSet.from_versioned_targets\<close> is not among the
  sources. Several targets are merged into one versioned target set; the merged key is a hash
  of the sorted individual keys. The hash function \<open>hash_all\<close> is a parameter.
\<close>

definition combine_cache_keys :: "(string list \<Rightarrow> string) \<Rightarrow> cache_key list \<Rightarrow> cache_key" where
  "combine_cache_keys hash_all cache_keys = \<lparr>hash = hash_all (sort (map hash cache_keys))\<rparr>"

definition from_versioned_targets :: "(string list \<Rightarrow> string) \<Rightarrow> versioned_target_set list
                                      \<Rightarrow> versioned_target_set" where
  "from_versioned_targets hash_all versioned_targets =
     \<lparr>vts_targets = concat (map vts_targets versioned_targets),
      vts_cache_key = combine_cache_keys hash_all (map vts_cache_key versioned_targets),
      vts_valid = list_all vts_valid versioned_targets\<rparr>"

text \<open>
  The selected interpreter, as far as \<open>create_pex\<close> reads it: \<open>str(interpreter.identity)\<close>
  and \<open>str(interpreter.identity.requirement)\<close>. A PEX is its path and its interpreter.
\<close>

record python_interpreter =
  identity :: string
  requirement :: string

record pex =
  pex_path :: string
  pex_interpreter :: python_interpreter

text \<open>
  The products \<open>create_pex\<close> reads with \<open>products.get_data\<close>, which answers \<open>None\<close> for a
  product that was never set.
\<close>

record products =
  PythonInterpreter :: "python_interpreter option"
  REQUIREMENTS_PEX :: "pex option"
  PYTHON_SOURCES :: "pex option"

text \<open>\<open>PythonExecutionTaskBase.ExtraFile\<close>.\<close>

record ExtraFile =
  path :: string
  content :: string

text \<open>
  What surrounds \<open>create_pex\<close>: the task's working directory, the products of the run, the
  overridable \<open>extra_requirements()\<close> and \<open>extra_files()\<close>, and the collaborators that are
  not among the sources: the class test on a target, \<open>Task.invalidated\<close>,
  \<open>resolve_requirement_strings\<close>, the hash under the cache keys and \<open>os.path.realpath\<close>.
\<close>

record task_env =
  workdir :: string
  task_products :: products
  extra_requirements :: "string list"
  extra_files :: "ExtraFile list"
  is_relevant_target :: "address \<Rightarrow> bool"
  invalidated :: "address list \<Rightarrow> invalidation_check"
  resolve_requirement_strings :: "python_interpreter \<Rightarrow> string list \<Rightarrow> pex"
  hash_all :: "string list \<Rightarrow> string"
  realpath :: "string \<Rightarrow> string"

text \<open>
  Modelled from the spec: \<open>ResolveRequirementsTaskBase.merged_pex\<close> is not among the
  sources. One build of a merged PEX: the output path, the PEXes mixed in via \<open>PEX_PATH\<close>,
  the interpreter constraints and the extra files added before the freeze. A build leaves
  its artifact directory on disk.
\<close>

record merged_pex_build =
  build_path :: string
  build_pexes :: "pex option list"
  build_constraints :: "string list"
  build_extra_files :: "ExtraFile list"

record task_state =
  task_context :: Context
  builds :: "merged_pex_build list"

definition merged_pex :: "string \<Rightarrow> pex option list \<Rightarrow> string list \<Rightarrow> ExtraFile list
                          \<Rightarrow> task_state \<Rightarrow> task_state" where
  "merged_pex p pexes constraints files s =
     s\<lparr>task_context := (task_context s)\<lparr>directories :=
                           ordered_set_update (directories (task_context s)) [p]\<rparr>,
       builds := builds s @ [\<lparr>build_path = p, build_pexes = pexes,
                               build_constraints = constraints,
                               build_extra_files = files\<rparr>]\<rparr>"

text \<open>
  The id of the target set in \<open>create_pex\<close>: the hash of the merged cache key, or the fixed
  \<open>no_targets\<close> when there is no versioned target set.
\<close>

definition target_set_id :: "(string list \<Rightarrow> string) \<Rightarrow> invalidation_check \<Rightarrow> string" where
  "target_set_id h check =
     (if all_vts check \<noteq> []
      then hash (vts_cache_key (from_versioned_targets h (all_vts check)))
      else ''no_targets'')"

text \<open>
  \<open>PythonExecutionTaskBase.create_pex\<close>. Reading \<open>interpreter.identity\<close> off a missing
  interpreter product raises \<open>AttributeError\<close>.
\<close>

definition create_pex :: "task_env \<Rightarrow> task_state \<Rightarrow> py_error + (task_state \<times> pex)" where
  "create_pex env s =
     (let (c1, relevant_targets) =
            targets (task_context s) (Some (is_relevant_target env)) [];
          s1 = s\<lparr>task_context := c1\<rparr>;
          invalidation_check = invalidated env relevant_targets;
          tsid = target_set_id (hash_all env) invalidation_check
      in case PythonInterpreter (task_products env) of
           None \<Rightarrow> Inl AttributeError
         | Some interpreter \<Rightarrow>
             (let p = realpath env
                        (path_join (path_join (workdir env) (identity interpreter)) tsid)
              in if p \<notin> set (directories (task_context s1))
                 then (let pexes = [REQUIREMENTS_PEX (task_products env),
                                    PYTHON_SOURCES (task_products env)];
                           pexes' = (if extra_requirements env \<noteq> []
                                     then Some (resolve_requirement_strings env interpreter
                                                  (extra_requirements env)) # pexes
                                     else pexes);
                           constraints = [requirement interpreter]
                       in Inr (merged_pex p pexes' constraints (extra_files env) s1,
                               \<lparr>pex_path = p, pex_interpreter = interpreter\<rparr>))
                 else Inr (s1, \<lparr>pex_path = p, pex_interpreter = interpreter\<rparr>)))"

text \<open>
  A task environment over \<open>context_ab\<close>: every product is present, nothing extra is asked
  for, every target is relevant, and the invalidation check reports one versioned target set
  per target, each of them valid. The second environment has no relevant target.
\<close>

definition interpreter_cp27 :: python_interpreter where
  "interpreter_cp27 = \<lparr>identity = ''CPython-2.7.15'', requirement = ''CPython==2.7.15''\<rparr>"

definition env_all_valid :: task_env where
  "env_all_valid =
     \<lparr>workdir = ''/buildroot/.pants.d/py'',
      task_products =
        \<lparr>PythonInterpreter = Some interpreter_cp27,
         REQUIREMENTS_PEX = Some \<lparr>pex_path = ''/buildroot/.pants.d/requirements'',
                                  pex_interpreter = interpreter_cp27\<rparr>,
         PYTHON_SOURCES = Some \<lparr>pex_path = ''/buildroot/.pants.d/sources'',
                                pex_interpreter = interpreter_cp27\<rparr>\<rparr>,
      extra_requirements = [],
      extra_files = [],
      is_relevant_target = (\<lambda>t. True),
      invalidated = (\<lambda>ts. \<lparr>all_vts = map (\<lambda>t. \<lparr>vts_targets = [t],
                                                       vts_cache_key = \<lparr>hash = t\<rparr>,
                                                       vts_valid = True\<rparr>) ts,
                              invalid_vts = []\<rparr>),
      resolve_requirement_strings = (\<lambda>i rs. \<lparr>pex_path = ''/buildroot/.pants.d/extra'',
                                               pex_interpreter = i\<rparr>),
      hash_all = concat,
      realpath = (\<lambda>p. p)\<rparr>"

definition env_no_targets :: task_env where
  "env_no_targets = env_all_valid\<lparr>is_relevant_target := (\<lambda>t. False)\<rparr>"

definition state_ab :: task_state where
  "state_ab = \<lparr>task_context = context_ab, builds = []\<rparr>"

section \<open>Required products and the round engine\<close>

text \<open>The product types a task can require or provide.\<close>

datatype product_type =
  PythonInterpreter_type | REQUIREMENTS_PEX_type | PYTHON_SOURCES_type | Product string

text \<open>
  Modelled from the spec: the round manager is not among the sources. It collects the
  product types a task declares with \<open>round_manager.require_data(ProductType)\<close>.
\<close>

type_synonym round_manager = "product_type list"

definition require_data :: "product_type \<Rightarrow> round_manager \<Rightarrow> round_manager" where
  "require_data product rm = rm @ [product]"

text \<open>
  \<open>PythonExecutionTaskBase.prepare\<close>: after the superclass's \<open>prepare\<close> (not among the
  sources, a parameter) the interpreter, the requirements PEX and the gathered sources are
  required.
\<close>

definition prepare :: "(round_manager \<Rightarrow> round_manager) \<Rightarrow> round_manager \<Rightarrow> round_manager" where
  "prepare super_prepare rm =
     require_data PYTHON_SOURCES_type
       (require_data REQUIREMENTS_PEX_type
          (require_data PythonInterpreter_type (super_prepare rm)))"

text \<open>
  Modelled from the spec: the task/goal scheduler (round engine) is not among the sources.
  Tasks are registered with declared product requirements and declared product provisions.
  Schedule construction fails with an unsatisfied-dependency error when a required product
  type has no provider; otherwise the tasks are ordered topologically, so that a task
  requiring a product runs strictly after every task providing it (a task is taken once no
  pending task provides anything it requires), and a cycle is a configuration error. Only a
  constructed schedule is executed, task by task in its order.
\<close>

record task_decl =
  task_name :: string
  requires :: "product_type list"
  provides :: "product_type list"

datatype schedule_error = UnsatisfiedDependencyError string product_type | CycleError

definition providers :: "task_decl list \<Rightarrow> product_type \<Rightarrow> task_decl list" where
  "providers tasks product = filter (\<lambda>p. product \<in> set (provides p)) tasks"

definition unsatisfied :: "task_decl list \<Rightarrow> (task_decl \<times> product_type) list" where
  "unsatisfied tasks =
     concat (map (\<lambda>t. map (\<lambda>product. (t, product))
                         (filter (\<lambda>product. providers tasks product = []) (requires t)))
                 tasks)"

definition ready :: "task_decl \<Rightarrow> task_decl list \<Rightarrow> bool" where
  "ready t pending =
     list_all (\<lambda>p. list_all (\<lambda>product. product \<notin> set (requires t)) (provides p)) pending"

function order_tasks :: "task_decl list \<Rightarrow> task_decl list \<Rightarrow> schedule_error + task_decl list" where
  "order_tasks scheduled pending =
     (if pending = [] then Inr scheduled
      else case find (\<lambda>t. ready t pending) pending of
             None \<Rightarrow> Inl CycleError
           | Some t \<Rightarrow> order_tasks (scheduled @ [t]) (remove1 t pending))"
  by pat_completeness auto
termination
proof (relation "measure (\<lambda>(scheduled, pending). length pending)", goal_cases)
  case 1
  show ?case by simp
next
  case (2 scheduled pending t)
  then have "t \<in> set pending" by (auto simp: find_Some_iff)
  then show ?case by (simp add: length_remove1) (cases pending; simp)
qed

definition schedule :: "task_decl list \<Rightarrow> schedule_error + task_decl list" where
  "schedule tasks =
     (case unsatisfied tasks of
        (t, product) # rest \<Rightarrow> Inl (UnsatisfiedDependencyError (task_name t) product)
      | [] \<Rightarrow> order_tasks [] tasks)"

text \<open>A run: the error of schedule construction, if any, and the tasks executed, in order.\<close>

definition run :: "task_decl list \<Rightarrow> schedule_error option \<times> string list" where
  "run tasks =
     (case schedule tasks of
        Inl e \<Rightarrow> (Some e, [])
      | Inr order \<Rightarrow> (None, map task_name order))"

text \<open>
  In a list of tasks that is well ordered, nothing from a task on provides what that task
  requires.
\<close>

fun well_ordered :: "task_decl list \<Rightarrow> bool" where
  "well_ordered [] = True"
| "well_ordered (t # rest) = (ready t (t # rest) \<and> well_ordered rest)"

text \<open>
  The tasks of the \<open>pyprep\<close> and \<open>run\<close> goals of \<open>register_goals\<close>, as far as the products
  above go; \<open>py\<close> is a \<open>PythonExecutionTaskBase\<close> and requires what \<open>prepare\<close> declares.
\<close>

definition python_run_task :: task_decl where
  "python_run_task = \<lparr>task_name = ''py'', requires = prepare (\<lambda>rm. rm) [], provides = []\<rparr>"

definition python_tasks :: "task_decl list" where
  "python_tasks =
     [python_run_task,
      \<lparr>task_name = ''sources'', requires = [PythonInterpreter_type],
        provides = [PYTHON_SOURCES_type]\<rparr>,
      \<lparr>task_name = ''requirements'', requires = [PythonInterpreter_type],
        provides = [REQUIREMENTS_PEX_type]\<rparr>,
      \<lparr>task_name = ''interpreter'', requires = [], provides = [PythonInterpreter_type]\<rparr>]"

section \<open>Properties of the workdir lock\<close>

text \<open>
  C9: \<open>release_lock\<close> returns \<open>True\<close> exactly when the lock was held immediately before the
  call; after any call the lock is not held (\<open>is_unlocked\<close> answers \<open>True\<close>); and a call made
  while the lock is not held leaves the context as it was.
\<close>

theorem release_lock_spec:
  "snd (release_lock c) = lock_acquired c
   \<and> is_unlocked (fst (release_lock c))
   \<and> (\<not> lock_acquired c \<longrightarrow> fst (release_lock c) = c)"
  by (simp add: release_lock_def is_unlocked_def lock_release_def)

theorem release_lock_spec_witness:
  "snd (release_lock \<lparr>build_graph = \<lparr>target_dependencies_by_address = [],
        synthetic_addresses = [], derived_from_by_derivative = [],
        invalidation_callbacks = []\<rparr>, targets_cache = Map.empty, target_roots = [],
        lock_acquired = False, buildroot = [], source_roots = [], directories = []\<rparr>) = False
   \<and> fst (release_lock \<lparr>build_graph = \<lparr>target_dependencies_by_address = [],
        synthetic_addresses = [], derived_from_by_derivative = [],
        invalidation_callbacks = []\<rparr>, targets_cache = Map.empty, target_roots = [],
        lock_acquired = False, buildroot = [], source_roots = [], directories = []\<rparr>)
      = \<lparr>build_graph = \<lparr>target_dependencies_by_address = [],
        synthetic_addresses = [], derived_from_by_derivative = [],
        invalidation_callbacks = []\<rparr>, targets_cache = Map.empty, target_roots = [],
        lock_acquired = False, buildroot = [], source_roots = [], directories = []\<rparr>"
  using release_lock_spec [of "\<lparr>build_graph = \<lparr>target_dependencies_by_address = [],
        synthetic_addresses = [], derived_from_by_derivative = [],
        invalidation_callbacks = []\<rparr>, targets_cache = Map.empty, target_roots = [],
        lock_acquired = False, buildroot = [], source_roots = [], directories = []\<rparr>"]
  by simp

section \<open>The closure is the reachable set\<close>

lemma enters_simps [simp]:
  "enters [] = {}"
  "enters (Enter a # st) = insert a (enters st)"
  "enters (Exit a # st) = enters st"
  "enters (map Enter ds @ st) = set ds \<union> enters st"
  by (auto simp: enters_def)

lemma exit_list_map_Enter [simp]: "exit_list (map Enter ds @ st) = exit_list st"
  by (induction ds) auto

lemma walk_inv_Exit:
  assumes "walk_inv g postorder R (Exit a # st) seen out"
  shows "walk_inv g postorder R st seen (if postorder then out @ [a] else out)"
  using assms unfolding walk_inv_def by auto

lemma walk_inv_Enter_seen:
  assumes "walk_inv g postorder R (Enter a # st) seen out" "a \<in> set seen"
  shows "walk_inv g postorder R st seen out"
  using assms unfolding walk_inv_def by auto

lemma walk_inv_Enter_new:
  assumes "walk_inv g postorder R (Enter a # st) seen out" "a \<notin> set seen"
    and closed: "\<forall>x\<in>R. set (dependencies g x) \<subseteq> R"
  shows "walk_inv g postorder R (map Enter (dependencies g a) @ Exit a # st) (a # seen)
           (if postorder then out else out @ [a])"
proof -
  from assms(1) have a: "a \<in> R" by (simp add: walk_inv_def)
  with closed have "set (dependencies g a) \<subseteq> R" by blast
  with assms(1,2) a show ?thesis
    unfolding walk_inv_def by auto
qed

lemma walk_result:
  "walk_inv g postorder R st seen out \<Longrightarrow> \<forall>x\<in>R. set (dependencies g x) \<subseteq> R
   \<Longrightarrow> walk_post g R st seen (walk g postorder st seen out)"
proof (induction g postorder st seen out rule: walk.induct)
  case (1 g postorder seen out)
  then show ?case by (auto simp: walk_inv_def walk_post_def)
next
  case (2 g postorder a st seen out)
  from walk_inv_Exit [OF "2.prems"(1)] "2.IH" "2.prems"
  have "walk_post g R st seen (walk g postorder st seen (if postorder then out @ [a] else out))"
    by blast
  then show ?case by (simp add: walk_post_def)
next
  case (3 g postorder a st seen out)
  show ?case
  proof (cases "a \<in> set seen")
    case True
    from walk_inv_Enter_seen [OF "3.prems"(1) True] "3.IH"(1) True "3.prems"
    have "walk_post g R st seen (walk g postorder st seen out)" by blast
    with True show ?thesis by (auto simp: walk_post_def)
  next
    case False
    from walk_inv_Enter_new [OF "3.prems"(1) False "3.prems"(2)] "3.IH"(2) False "3.prems"(2)
    have "walk_post g R (map Enter (dependencies g a) @ Exit a # st) (a # seen)
            (walk g postorder (map Enter (dependencies g a) @ Exit a # st) (a # seen)
               (if postorder then out else out @ [a]))" by blast
    with False show ?thesis by (auto simp: walk_post_def)
  qed
qed

lemma reachable_closed: "\<forall>x\<in>reachable g A. set (dependencies g x) \<subseteq> reachable g A"
  by (auto simp: reachable_def edges_def intro: rtrancl_into_rtrancl)

lemma reachable_least:
  assumes "A \<subseteq> S" "\<forall>x\<in>S. set (dependencies g x) \<subseteq> S"
  shows "reachable g A \<subseteq> S"
proof
  fix y assume "y \<in> reachable g A"
  then obtain x where x: "x \<in> A" and r: "(x, y) \<in> (edges g)\<^sup>*"
    by (auto simp: reachable_def)
  from r x show "y \<in> S"
    using assms by (induction rule: rtrancl_induct) (auto simp: edges_def)
qed

lemma closure_for_targets_reachable:
  "set (closure_for_targets g roots kw) = reachable g (set roots)"
  and closure_for_targets_distinct: "distinct (closure_for_targets g roots kw)"
proof -
  let ?R = "reachable g (set roots)"
  let ?post = "map_of kw ''postorder'' = Some True"
  have "set roots \<subseteq> ?R" by (auto simp: reachable_def)
  then have "walk_inv g ?post ?R (map Enter roots) [] []"
    using enters_simps(4) [of roots "[]"] exit_list_map_Enter [of roots "[]"]
    by (simp add: walk_inv_def del: enters_simps(4) exit_list_map_Enter)
  from walk_result [OF this reachable_closed]
  have p: "walk_post g ?R (map Enter roots) [] (closure_for_targets g roots kw)"
    by (simp add: closure_for_targets_def)
  then show "distinct (closure_for_targets g roots kw)" by (simp add: walk_post_def)
  from p have "set roots \<subseteq> set (closure_for_targets g roots kw)"
    using enters_simps(4) [of roots "[]"] by (simp add: walk_post_def del: enters_simps(4))
  with p have "?R \<subseteq> set (closure_for_targets g roots kw)"
    by (intro reachable_least) (auto simp: walk_post_def)
  with p show "set (closure_for_targets g roots kw) = ?R" by (auto simp: walk_post_def)
qed

section \<open>What \<open>Context.targets\<close> returns\<close>

lemma set_ordered_set_update: "set (ordered_set_update xs ys) = set xs \<union> set ys"
  unfolding ordered_set_update_def by (induction ys arbitrary: xs) auto

lemma distinct_ordered_set_update: "distinct xs \<Longrightarrow> distinct (ordered_set_update xs ys)"
  unfolding ordered_set_update_def by (induction ys arbitrary: xs) auto

lemma set_unfiltered_targets:
  "set (unfiltered_targets c kw) =
     reachable (build_graph c) (set (target_roots c))
     \<union> reachable (build_graph c)
         {s \<in> set (synthetic_addresses (build_graph c)).
            get_concrete_derived_from (build_graph c) s
              \<in> reachable (build_graph c) (set (target_roots c))}"
  by (simp add: unfiltered_targets_def Let_def set_ordered_set_update
      closure_for_targets_reachable)

lemma distinct_unfiltered_targets: "distinct (unfiltered_targets c kw)"
  by (simp add: unfiltered_targets_def Let_def distinct_ordered_set_update
      closure_for_targets_distinct)

lemma targets_coherent:
  assumes "cache_coherent c"
  shows "\<exists>kw'. snd (targets c None kw) = unfiltered_targets c kw'"
proof (cases "targets_cache c (sort (map fst kw))")
  case None
  then show ?thesis by (auto simp: targets_def py_filter_def Let_def)
next
  case (Some ts)
  with assms obtain kw' where "ts = unfiltered_targets c kw'"
    by (auto simp: cache_coherent_def)
  with Some show ?thesis by (auto simp: targets_def py_filter_def Let_def)
qed

lemma cache_coherent_init: "cache_coherent (Context_init g roots root srcs dirs)"
  by (simp add: cache_coherent_def Context_init_def replace_targets_def clear_target_cache_def)

lemma unfiltered_targets_cache_irrelevant:
  "unfiltered_targets (c\<lparr>targets_cache := m\<rparr>) kw = unfiltered_targets c kw"
  by (simp add: unfiltered_targets_def)

lemma cache_coherent_targets:
  assumes "cache_coherent c"
  shows "cache_coherent (fst (targets c predicate kw))"
  using assms
  by (auto simp: cache_coherent_def targets_def Let_def unfiltered_targets_cache_irrelevant
      split: option.splits)

text \<open>
  C7: for a context whose cache is coherent, \<open>Context.targets()\<close> with no predicate returns
  exactly the targets reachable from the target roots over dependency edges, together with
  everything reachable from the synthetic targets whose concrete derived-from target lies in
  that reachable set, and no target occurs twice in the returned list. The walk keeps a
  visited set, so the statement needs no acyclicity assumption.
\<close>

theorem targets_exactly_reachable:
  assumes "cache_coherent c"
  shows "set (snd (targets c None kw)) =
           reachable (build_graph c) (set (target_roots c))
           \<union> reachable (build_graph c)
               {s \<in> set (synthetic_addresses (build_graph c)).
                  get_concrete_derived_from (build_graph c) s
                    \<in> reachable (build_graph c) (set (target_roots c))}
         \<and> distinct (snd (targets c None kw))"
proof -
  from targets_coherent [OF assms] obtain kw'
    where "snd (targets c None kw) = unfiltered_targets c kw'" by blast
  then show ?thesis
    by (simp add: set_unfiltered_targets distinct_unfiltered_targets)
qed

theorem targets_exactly_reachable_witness:
  "cache_coherent context_gen
   \<and> reachable (build_graph context_gen) (set (target_roots context_gen))
       \<union> reachable (build_graph context_gen)
           {s \<in> set (synthetic_addresses (build_graph context_gen)).
              get_concrete_derived_from (build_graph context_gen) s
                \<in> reachable (build_graph context_gen) (set (target_roots context_gen))}
     = {''src:a'', ''src:b'', ''gen:s'', ''gen:t''}"
proof -
  have coh: "cache_coherent context_gen"
    unfolding context_gen_def by (rule cache_coherent_init)
  have ev: "snd (targets context_gen None []) = [''src:a'', ''src:b'', ''gen:s'', ''gen:t'']"
    by (simp add: context_gen_def graph_gen_def targets_def Context_init_def
      replace_targets_def clear_target_cache_def unfiltered_targets_def
      closure_for_targets_def dependencies_def add_invalidation_callback_def
      ordered_set_update_def py_filter_def get_concrete_derived_from_def Let_def)
  from targets_exactly_reachable [OF coh, of "[]"] ev coh show ?thesis
    by simp
qed

section \<open>The cache key of \<open>Context.targets\<close>\<close>

text \<open>
  C1: the cache key \<open>tuple(sorted(kwargs))\<close> holds the keyword names only. On the graph
  \<open>src:a \<rightarrow> src:b\<close> with root \<open>src:a\<close>, a call \<open>targets(postorder=True)\<close> followed by
  \<open>targets(postorder=False)\<close> answers the second call from the entry of the first: the
  post-order list \<open>[src:b, src:a]\<close>, where the pre-order closure, and the same call made
  first, give \<open>[src:a, src:b]\<close>.
\<close>

theorem targets_cache_key_drops_kwarg_values:
  "snd (targets (fst (targets context_ab None [(''postorder'', True)])) None
          [(''postorder'', False)]) = [''src:b'', ''src:a'']
   \<and> closure_for_targets (build_graph context_ab) (target_roots context_ab)
          [(''postorder'', False)] = [''src:a'', ''src:b'']
   \<and> snd (targets context_ab None [(''postorder'', False)]) = [''src:a'', ''src:b'']"
  by (simp add: context_ab_def graph_ab_def targets_def Context_init_def
      replace_targets_def clear_target_cache_def unfiltered_targets_def
      closure_for_targets_def dependencies_def add_invalidation_callback_def
      ordered_set_update_def py_filter_def Let_def)

section \<open>Dependents\<close>

lemma set_py_filter: "set (py_filter p ts) = {t \<in> set ts. holds p t}"
  by (cases p) (auto simp: py_filter_def holds_def)

lemma targets_snd_filter: "snd (targets c p kw) = py_filter p (snd (targets c None kw))"
  by (simp add: targets_def Let_def py_filter_def split: option.splits)

lemma targets_again:
  "targets (fst (targets c p kw)) q kw
     = (fst (targets c p kw), py_filter q (snd (targets c None kw)))"
  by (simp add: targets_def Let_def py_filter_def split: option.splits)

lemma targets_build_graph: "build_graph (fst (targets c p kw)) = build_graph c"
  by (simp add: targets_def Let_def split: option.splits)

lemma dependents_inner_other:
  "x \<noteq> t \<Longrightarrow> foldl (\<lambda>m d. if P d then add_dependee t d m else m) m ds x = m x"
  by (induction ds arbitrary: m) (simp_all add: add_dependee_def)

lemma dependents_inner_same:
  "foldl (\<lambda>m d. if P d then add_dependee t d m else m) m ds t =
     (if {d \<in> set ds. P d} = {} then m t
      else Some ((case m t of None \<Rightarrow> {} | Some s \<Rightarrow> s) \<union> {d \<in> set ds. P d}))"
  by (induction ds arbitrary: m) (auto simp: add_dependee_def)

lemma dependents_outer_fold:
  "foldl (\<lambda>m t. foldl (\<lambda>m' d. if P d then add_dependee t d m' else m') m (deps t))
       m ts x =
     (if x \<in> set ts \<and> {d \<in> set (deps x). P d} \<noteq> {}
      then Some ((case m x of None \<Rightarrow> {} | Some s \<Rightarrow> s) \<union> {d \<in> set (deps x). P d})
      else m x)"
proof (induction ts arbitrary: m)
  case Nil
  then show ?case by simp
next
  case (Cons t ts)
  show ?case
  proof (cases "x = t")
    case True
    show ?thesis
      by (simp add: True [symmetric] Cons.IH dependents_inner_same) blast
  next
    case False
    then show ?thesis
      by (simp add: Cons.IH dependents_inner_other) blast
  qed
qed

lemma dependents_lookup:
  "snd (dependents c on_predicate from_predicate) t =
     (if t \<in> set (snd (targets c None [])) \<and> holds from_predicate t
         \<and> {d \<in> set (dependencies (build_graph c) t).
               d \<in> set (snd (targets c None [])) \<and> holds on_predicate d} \<noteq> {}
      then Some {d \<in> set (dependencies (build_graph c) t).
                   d \<in> set (snd (targets c None [])) \<and> holds on_predicate d}
      else None)"
proof -
  let ?T = "snd (targets c None [])"
  have "snd (dependents c on_predicate from_predicate) =
      foldl (\<lambda>m t. foldl (\<lambda>m' d. if d \<in> set (py_filter on_predicate ?T)
                                      then add_dependee t d m' else m')
                          m (dependencies (build_graph c) t))
        Map.empty (py_filter from_predicate ?T)"
    by (simp add: dependents_def split_def Let_def targets_again targets_build_graph
        targets_snd_filter [of c on_predicate])
  then show ?thesis
    by (auto simp: dependents_outer_fold set_py_filter)
qed

text \<open>
  C8: for every pair of predicates, the mapping returned by \<open>Context.dependents\<close> has an
  entry for a target exactly when the target is in play (among the targets
  \<open>Context.targets()\<close> returns), satisfies the from-predicate and has a direct dependency
  that is in play and satisfies the on-predicate; the set under a key is exactly the set of
  those dependencies; and neither a key nor a member of any set lies outside the in-play
  targets.
\<close>

theorem dependents_spec:
  "dom (snd (dependents c on_predicate from_predicate)) =
     {t \<in> set (snd (targets c None [])).
        holds from_predicate t
        \<and> (\<exists>d\<in>set (dependencies (build_graph c) t).
               d \<in> set (snd (targets c None [])) \<and> holds on_predicate d)}
   \<and> (\<forall>t\<in>dom (snd (dependents c on_predicate from_predicate)).
         snd (dependents c on_predicate from_predicate) t =
           Some {d \<in> set (dependencies (build_graph c) t).
                   d \<in> set (snd (targets c None [])) \<and> holds on_predicate d})
   \<and> dom (snd (dependents c on_predicate from_predicate)) \<subseteq> set (snd (targets c None []))
   \<and> (\<forall>s\<in>ran (snd (dependents c on_predicate from_predicate)).
         s \<subseteq> set (snd (targets c None [])))"
proof -
  let ?m = "snd (dependents c on_predicate from_predicate)"
  let ?T = "set (snd (targets c None []))"
  let ?D = "\<lambda>t. {d \<in> set (dependencies (build_graph c) t). d \<in> ?T \<and> holds on_predicate d}"
  have look: "?m t = (if t \<in> ?T \<and> holds from_predicate t \<and> ?D t \<noteq> {} then Some (?D t) else None)"
    for t by (rule dependents_lookup)
  have 1: "dom ?m = {t \<in> ?T. holds from_predicate t
                       \<and> (\<exists>d\<in>set (dependencies (build_graph c) t). d \<in> ?T \<and> holds on_predicate d)}"
    unfolding dom_def look by auto
  have 2: "\<forall>t\<in>dom ?m. ?m t = Some (?D t)"
    unfolding dom_def look by auto
  have 3: "dom ?m \<subseteq> ?T"
    unfolding 1 by auto
  have 4: "\<forall>s\<in>ran ?m. s \<subseteq> ?T"
    unfolding ran_def look by auto
  from 1 2 3 4 show ?thesis by (intro conjI)
qed

theorem dependents_spec_witness:
  "''src:a'' \<in> dom (snd (dependents context_gen None None))
   \<and> snd (dependents context_gen None None) ''src:a'' = Some {''src:b''}
   \<and> {''src:b''} \<in> ran (snd (dependents context_gen None None))
   \<and> {''src:b''} \<subseteq> set (snd (targets context_gen None []))"
proof -
  let ?m = "snd (dependents context_gen None None)"
  have ev: "snd (targets context_gen None []) = [''src:a'', ''src:b'', ''gen:s'', ''gen:t'']"
    by (simp add: context_gen_def graph_gen_def targets_def Context_init_def
      replace_targets_def clear_target_cache_def unfiltered_targets_def
      closure_for_targets_def dependencies_def add_invalidation_callback_def
      ordered_set_update_def py_filter_def get_concrete_derived_from_def Let_def)
  have deps: "dependencies (build_graph context_gen) ''src:a'' = [''src:b'']"
    by (simp add: context_gen_def graph_gen_def Context_init_def replace_targets_def
      clear_target_cache_def dependencies_def add_invalidation_callback_def)
  note t = dependents_spec [of context_gen None None]
  have "''src:a'' \<in> {t \<in> set (snd (targets context_gen None [])).
        holds None t
        \<and> (\<exists>d\<in>set (dependencies (build_graph context_gen) t).
               d \<in> set (snd (targets context_gen None [])) \<and> holds None d)}"
    by (simp add: ev deps holds_def)
  then have d: "''src:a'' \<in> dom ?m"
    unfolding t [THEN conjunct1] .
  have "{d \<in> set (dependencies (build_graph context_gen) ''src:a'').
          d \<in> set (snd (targets context_gen None [])) \<and> holds None d} = {''src:b''}"
    by (auto simp: ev deps holds_def)
  with t [THEN conjunct2, THEN conjunct1, THEN bspec, OF d]
  have l: "?m ''src:a'' = Some {''src:b''}"
    by simp
  then have r: "{''src:b''} \<in> ran ?m"
    by (rule ranI)
  from t [THEN conjunct2, THEN conjunct2, THEN conjunct2, THEN bspec, OF r]
  have s: "{''src:b''} \<subseteq> set (snd (targets context_gen None []))" .
  from d l r s show ?thesis by (intro conjI)
qed

section \<open>Interrupting \<open>subproc_map\<close>\<close>

lemma wait_until_ready_interrupted:
  "wait_until_ready (replicate n StillNotReady @ Interrupted # rest) lg =
     Some (True, lg @ replicate n ''subproc_map result still not ready...'')"
proof (induction n arbitrary: lg)
  case 0
  show ?case by simp
next
  case (Suc n)
  show ?case by (simp add: Suc.IH replicate_append_same)
qed

text \<open>
  C5: when a keyboard interrupt arrives while \<open>Context.subproc_map\<close> is waiting for the
  worker-pool results (after any number of waits that timed out), the pool is shut down with
  \<open>force=True\<close> (no pool is left, no worker is busy, the in-flight work was killed) and the
  call raises \<open>KeyboardInterrupt\<close>: the interrupt is not swallowed and no results are
  returned, whatever the workers would have produced.
\<close>

theorem subproc_map_interrupt:
  "subproc_map p False (replicate n StillNotReady @ Interrupted # rest) outcome lg =
     Some (shutdown True (map_async (foreground p)),
           lg @ replicate n ''subproc_map result still not ready...'',
           Inl KeyboardInterrupt)
   \<and> \<not> pool_present (shutdown True (map_async (foreground p)))
   \<and> \<not> workers_busy (shutdown True (map_async (foreground p)))
   \<and> killed (shutdown True (map_async (foreground p)))"
  by (simp add: subproc_map_def wait_until_ready_interrupted shutdown_def map_async_def
      foreground_def)

theorem subproc_map_interrupt_witness:
  "subproc_map \<lparr>pool_present = False, workers_busy = False, killed = False\<rparr> False
      [StillNotReady, StillNotReady, Interrupted, BecameReady] (Inr [1::nat, 2]) [] =
     Some (\<lparr>pool_present = False, workers_busy = False, killed = True\<rparr>,
           [''subproc_map result still not ready...'', ''subproc_map result still not ready...''],
           Inl KeyboardInterrupt)"
  using subproc_map_interrupt [of "\<lparr>pool_present = False, workers_busy = False, killed = False\<rparr>"
      2 "[BecameReady]" "Inr [1::nat, 2]" "[]"]
  by (simp add: numeral_2_eq_2 shutdown_def map_async_def foreground_def)

section \<open>The merged cache key\<close>

lemma sort_hash_perm:
  assumes "mset xs = mset ys"
  shows "sort (map hash xs) = sort (map hash ys)"
proof -
  from assms have "mset (map hash xs) = mset (map hash ys)" by simp
  then show ?thesis by (metis properties_for_sort sorted_sort mset_sort)
qed

text \<open>
  C4: the hash of the merged cache key of \<open>VersionedTargetSet.from_versioned_targets\<close>, and
  with it the \<open>target_set_id\<close> of \<open>create_pex\<close>, is the same for every permutation of the
  versioned targets it is computed from, for any hash function.
\<close>

theorem merged_cache_key_permutation_invariant:
  assumes "mset vts = mset vts'"
  shows "hash (vts_cache_key (from_versioned_targets h vts))
           = hash (vts_cache_key (from_versioned_targets h vts'))
         \<and> target_set_id h \<lparr>all_vts = vts, invalid_vts = ivs\<rparr>
           = target_set_id h \<lparr>all_vts = vts', invalid_vts = ivs'\<rparr>"
proof -
  from assms(1) have "mset (map vts_cache_key vts) = mset (map vts_cache_key vts')" by simp
  then have e: "sort (map hash (map vts_cache_key vts)) = sort (map hash (map vts_cache_key vts'))"
    by (rule sort_hash_perm)
  from assms have "vts = [] \<longleftrightarrow> vts' = []" by (metis mset_zero_iff)
  with e show ?thesis
    by (simp add: from_versioned_targets_def combine_cache_keys_def target_set_id_def)
qed

theorem merged_cache_key_permutation_invariant_witness:
  "mset [\<lparr>vts_targets = [''src:a''], vts_cache_key = \<lparr>hash = ''k2''\<rparr>, vts_valid = True\<rparr>,
         \<lparr>vts_targets = [''src:b''], vts_cache_key = \<lparr>hash = ''k1''\<rparr>, vts_valid = False\<rparr>]
   = mset [\<lparr>vts_targets = [''src:b''], vts_cache_key = \<lparr>hash = ''k1''\<rparr>, vts_valid = False\<rparr>,
           \<lparr>vts_targets = [''src:a''], vts_cache_key = \<lparr>hash = ''k2''\<rparr>, vts_valid = True\<rparr>]
   \<and> hash (vts_cache_key (from_versioned_targets concat
        [\<lparr>vts_targets = [''src:a''], vts_cache_key = \<lparr>hash = ''k2''\<rparr>, vts_valid = True\<rparr>,
         \<lparr>vts_targets = [''src:b''], vts_cache_key = \<lparr>hash = ''k1''\<rparr>, vts_valid = False\<rparr>]))
     = hash (vts_cache_key (from_versioned_targets concat
        [\<lparr>vts_targets = [''src:b''], vts_cache_key = \<lparr>hash = ''k1''\<rparr>, vts_valid = False\<rparr>,
         \<lparr>vts_targets = [''src:a''], vts_cache_key = \<lparr>hash = ''k2''\<rparr>, vts_valid = True\<rparr>]))"
proof -
  let ?a = "\<lparr>vts_targets = [''src:a''], vts_cache_key = \<lparr>hash = ''k2''\<rparr>, vts_valid = True\<rparr>"
  let ?b = "\<lparr>vts_targets = [''src:b''], vts_cache_key = \<lparr>hash = ''k1''\<rparr>, vts_valid = False\<rparr>"
  have m: "mset [?a, ?b] = mset [?b, ?a]" by (simp add: add.commute)
  from merged_cache_key_permutation_invariant [OF m, of concat "[]" "[]", THEN conjunct1] m
  show ?thesis by (intro conjI)
qed

section \<open>When \<open>create_pex\<close> builds\<close>

lemma targets_directories: "directories (fst (targets c p kw)) = directories c"
  by (simp add: targets_def Let_def split: option.splits)

lemma create_pex_result:
  assumes "PythonInterpreter (task_products env) = Some interpreter"
  shows "create_pex env s =
     (let s1 = s\<lparr>task_context := fst (targets (task_context s) (Some (is_relevant_target env)) [])\<rparr>;
          check = invalidated env (snd (targets (task_context s) (Some (is_relevant_target env)) []));
          p = realpath env (path_join (path_join (workdir env) (identity interpreter))
                              (target_set_id (hash_all env) check))
      in Inr (if p \<in> set (directories (task_context s)) then s1
              else merged_pex p
                     ((if extra_requirements env \<noteq> []
                       then [Some (resolve_requirement_strings env interpreter
                                     (extra_requirements env))]
                       else [])
                      @ [REQUIREMENTS_PEX (task_products env), PYTHON_SOURCES (task_products env)])
                     [requirement interpreter] (extra_files env) s1,
              \<lparr>pex_path = p, pex_interpreter = interpreter\<rparr>))"
  using assms
  by (simp add: create_pex_def split_def Let_def targets_directories)

lemma targets_context_ab:
  "snd (targets context_ab (Some p) []) = filter p [''src:a'', ''src:b'']"
  "directories context_ab = []"
  by (simp_all add: context_ab_def graph_ab_def targets_def Context_init_def
      replace_targets_def clear_target_cache_def unfiltered_targets_def
      closure_for_targets_def dependencies_def add_invalidation_callback_def
      ordered_set_update_def py_filter_def Let_def)

text \<open>
  C3: with the interpreter product present, \<open>create_pex\<close> returns the PEX at the output
  directory derived from the interpreter identity and the target set id, and it builds the
  merged PEX exactly when that directory is not on disk, whatever the invalidation check says
  about the validity of the versioned target sets; when the directory is there, nothing is
  built and the artifact is reused. Afterwards the directory exists.
\<close>

theorem create_pex_rebuilds_iff_directory_missing:
  assumes "PythonInterpreter (task_products env) = Some interpreter"
  shows "let check = invalidated env
                       (snd (targets (task_context s) (Some (is_relevant_target env)) []));
             p = realpath env (path_join (path_join (workdir env) (identity interpreter))
                                 (target_set_id (hash_all env) check))
         in \<exists>s'. create_pex env s = Inr (s', \<lparr>pex_path = p, pex_interpreter = interpreter\<rparr>)
                \<and> map build_path (builds s')
                    = map build_path (builds s)
                      @ (if p \<in> set (directories (task_context s)) then [] else [p])
                \<and> p \<in> set (directories (task_context s'))"
  unfolding create_pex_result [OF assms]
  by (simp add: Let_def merged_pex_def set_ordered_set_update targets_directories)

theorem create_pex_rebuilds_iff_directory_missing_witness:
  "PythonInterpreter (task_products env_all_valid) = Some interpreter_cp27
   \<and> list_all vts_valid (all_vts (invalidated env_all_valid
        (snd (targets (task_context state_ab) (Some (is_relevant_target env_all_valid)) []))))
   \<and> (\<exists>s'. create_pex env_all_valid state_ab
             = Inr (s', \<lparr>pex_path = ''/buildroot/.pants.d/py/CPython-2.7.15/src:asrc:b'',
                          pex_interpreter = interpreter_cp27\<rparr>)
           \<and> map build_path (builds s')
               = [''/buildroot/.pants.d/py/CPython-2.7.15/src:asrc:b''])"
proof -
  have i: "PythonInterpreter (task_products env_all_valid) = Some interpreter_cp27"
    by (simp add: env_all_valid_def)
  have ts: "snd (targets (task_context state_ab) (Some (is_relevant_target env_all_valid)) [])
              = [''src:a'', ''src:b'']"
    by (simp add: state_ab_def targets_context_ab env_all_valid_def)
  have v: "list_all vts_valid (all_vts (invalidated env_all_valid [''src:a'', ''src:b'']))"
    by (simp add: env_all_valid_def)
  have p: "realpath env_all_valid
             (path_join (path_join (workdir env_all_valid) (identity interpreter_cp27))
                (target_set_id (hash_all env_all_valid)
                   (invalidated env_all_valid [''src:a'', ''src:b''])))
           = ''/buildroot/.pants.d/py/CPython-2.7.15/src:asrc:b''"
    by (simp add: env_all_valid_def interpreter_cp27_def path_join_def target_set_id_def
        from_versioned_targets_def combine_cache_keys_def)
  have d: "directories (task_context state_ab) = []"
    by (simp add: state_ab_def targets_context_ab)
  have b: "builds state_ab = []" by (simp add: state_ab_def)
  from create_pex_rebuilds_iff_directory_missing [OF i, of state_ab]
  have "\<exists>s'. create_pex env_all_valid state_ab
             = Inr (s', \<lparr>pex_path = ''/buildroot/.pants.d/py/CPython-2.7.15/src:asrc:b'',
                          pex_interpreter = interpreter_cp27\<rparr>)
           \<and> map build_path (builds s')
               = [''/buildroot/.pants.d/py/CPython-2.7.15/src:asrc:b'']"
    unfolding Let_def ts p d b by auto
  with i v ts show ?thesis by simp
qed

text \<open>
  C10: when the invalidation check yields no versioned target set, \<open>create_pex\<close> (with the
  interpreter product present, as the required products of \<open>prepare\<close> guarantee) does not
  fail: it returns the PEX whose path is keyed under the fixed id \<open>no_targets\<close>, and when
  that directory is not on disk it still builds the merged PEX from the requirements and
  sources products.
\<close>

theorem create_pex_no_targets:
  assumes "PythonInterpreter (task_products env) = Some interpreter"
    and "all_vts (invalidated env
           (snd (targets (task_context s) (Some (is_relevant_target env)) []))) = []"
  shows "let p = realpath env (path_join (path_join (workdir env) (identity interpreter))
                                 ''no_targets'')
         in \<exists>s'. create_pex env s = Inr (s', \<lparr>pex_path = p, pex_interpreter = interpreter\<rparr>)
                \<and> builds s'
                    = builds s
                      @ (if p \<in> set (directories (task_context s)) then []
                         else [\<lparr>build_path = p,
                                 build_pexes =
                                   (if extra_requirements env \<noteq> []
                                    then [Some (resolve_requirement_strings env interpreter
                                                  (extra_requirements env))]
                                    else [])
                                   @ [REQUIREMENTS_PEX (task_products env),
                                      PYTHON_SOURCES (task_products env)],
                                 build_constraints = [requirement interpreter],
                                 build_extra_files = extra_files env\<rparr>])"
  unfolding create_pex_result [OF assms(1)]
  by (simp add: Let_def merged_pex_def target_set_id_def assms(2))

theorem create_pex_no_targets_witness:
  "PythonInterpreter (task_products env_no_targets) = Some interpreter_cp27
   \<and> all_vts (invalidated env_no_targets
        (snd (targets (task_context state_ab) (Some (is_relevant_target env_no_targets)) []))) = []
   \<and> (\<exists>s'. create_pex env_no_targets state_ab
             = Inr (s', \<lparr>pex_path = ''/buildroot/.pants.d/py/CPython-2.7.15/no_targets'',
                          pex_interpreter = interpreter_cp27\<rparr>)
           \<and> map build_path (builds s')
               = [''/buildroot/.pants.d/py/CPython-2.7.15/no_targets''])"
proof -
  have i: "PythonInterpreter (task_products env_no_targets) = Some interpreter_cp27"
    by (simp add: env_no_targets_def env_all_valid_def)
  have ts: "snd (targets (task_context state_ab) (Some (is_relevant_target env_no_targets)) [])
              = []"
    by (simp add: state_ab_def targets_context_ab env_no_targets_def)
  have e: "all_vts (invalidated env_no_targets
        (snd (targets (task_context state_ab) (Some (is_relevant_target env_no_targets)) []))) = []"
    unfolding ts by (simp add: env_no_targets_def env_all_valid_def)
  have p: "realpath env_no_targets
             (path_join (path_join (workdir env_no_targets) (identity interpreter_cp27))
                ''no_targets'')
           = ''/buildroot/.pants.d/py/CPython-2.7.15/no_targets''"
    by (simp add: env_no_targets_def env_all_valid_def interpreter_cp27_def path_join_def)
  have d: "directories (task_context state_ab) = []"
    by (simp add: state_ab_def targets_context_ab)
  have b: "builds state_ab = []" by (simp add: state_ab_def)
  from create_pex_no_targets [OF i e]
  have "\<exists>s'. create_pex env_no_targets state_ab
             = Inr (s', \<lparr>pex_path = ''/buildroot/.pants.d/py/CPython-2.7.15/no_targets'',
                          pex_interpreter = interpreter_cp27\<rparr>)
           \<and> map build_path (builds s')
               = [''/buildroot/.pants.d/py/CPython-2.7.15/no_targets'']"
    unfolding Let_def p d b by auto
  with i e show ?thesis by simp
qed

section \<open>Schedules respect required products\<close>

lemma ready_iff:
  "ready t pending \<longleftrightarrow> (\<forall>p\<in>set pending. set (provides p) \<inter> set (requires t) = {})"
  by (auto simp: ready_def list_all_iff)

lemma ready_set_cong: "set xs = set ys \<Longrightarrow> ready t xs = ready t ys"
  by (simp add: ready_iff)

lemma order_tasks_well_ordered:
  "order_tasks scheduled pending = Inr order \<Longrightarrow>
     \<exists>rest. order = scheduled @ rest \<and> mset rest = mset pending \<and> well_ordered rest"
proof (induction scheduled pending rule: order_tasks.induct)
  case (1 scheduled pending)
  show ?case
  proof (cases "pending = []")
    case True
    with "1.prems" show ?thesis by simp
  next
    case False
    with "1.prems" obtain t where f: "find (\<lambda>t. ready t pending) pending = Some t"
      and o: "order_tasks (scheduled @ [t]) (remove1 t pending) = Inr order"
      by (auto split: option.splits)
    from f have t: "t \<in> set pending" and r: "ready t pending"
      by (auto simp: find_Some_iff)
    from "1.IH" [OF False f o] obtain rest
      where rest: "order = (scheduled @ [t]) @ rest" "mset rest = mset (remove1 t pending)"
        "well_ordered rest" by blast
    from rest(2) t have m: "mset (t # rest) = mset pending" by simp
    then have "set (t # rest) = set pending" by (rule mset_eq_setD)
    with r have "ready t (t # rest)" by (simp add: ready_iff)
    with rest m show ?thesis by (intro exI [of _ "t # rest"]) simp
  qed
qed

lemma well_ordered_nth:
  "well_ordered xs \<Longrightarrow> j \<le> i \<Longrightarrow> i < length xs \<Longrightarrow>
     set (provides (xs ! i)) \<inter> set (requires (xs ! j)) = {}"
proof (induction xs arbitrary: i j)
  case Nil
  then show ?case by simp
next
  case (Cons x xs)
  show ?case
  proof (cases j)
    case 0
    from Cons.prems have "ready x (x # xs)" by simp
    moreover from Cons.prems have "(x # xs) ! i \<in> set (x # xs)" by (intro nth_mem) simp
    ultimately show ?thesis using 0 by (simp only: ready_iff nth_Cons_0)
  next
    case (Suc j')
    with Cons.prems obtain i' where i: "i = Suc i'" by (cases i) auto
    with Suc Cons.prems Cons.IH [of j' i'] show ?thesis by simp
  qed
qed

lemma schedule_order:
  assumes "schedule tasks = Inr order"
  shows "mset order = mset tasks \<and> well_ordered order"
proof -
  from assms have "order_tasks [] tasks = Inr order"
    by (auto simp: schedule_def split: list.splits prod.splits)
  from order_tasks_well_ordered [OF this] show ?thesis by simp
qed

lemma schedule_unsatisfied:
  assumes "t \<in> set tasks" "product \<in> set (requires t)"
    and "\<forall>p\<in>set tasks. product \<notin> set (provides p)"
  shows "\<exists>n q. schedule tasks = Inl (UnsatisfiedDependencyError n q)"
proof -
  from assms(3) have "providers tasks product = []"
    by (simp add: providers_def filter_empty_conv)
  with assms(1,2) have "(t, product) \<in> set (unsatisfied tasks)"
    by (auto simp: unsatisfied_def)
  then obtain u us where "unsatisfied tasks = u # us"
    by (cases "unsatisfied tasks") auto
  then show ?thesis by (cases u) (simp add: schedule_def)
qed


lemma prepare_requires:
  "{PythonInterpreter_type, REQUIREMENTS_PEX_type, PYTHON_SOURCES_type}
     \<subseteq> set (prepare super_prepare rm)"
  by (simp add: prepare_def require_data_def)

lemma schedule_python_tasks:
  "schedule python_tasks =
     Inr [\<lparr>task_name = ''interpreter'', requires = [], provides = [PythonInterpreter_type]\<rparr>,
          \<lparr>task_name = ''sources'', requires = [PythonInterpreter_type],
            provides = [PYTHON_SOURCES_type]\<rparr>,
          \<lparr>task_name = ''requirements'', requires = [PythonInterpreter_type],
            provides = [REQUIREMENTS_PEX_type]\<rparr>,
          python_run_task]"
  by code_simp

text \<open>
  C6: when a task requires a product type (as \<open>PythonExecutionTaskBase.prepare\<close> requires
  the interpreter, the requirements PEX and the Python sources) that no registered task
  provides, schedule construction fails with an unsatisfied-dependency error and no task is
  executed; and in every schedule that is constructed, which holds exactly the registered
  tasks and is what the run executes, a task requiring a product comes strictly after every
  task providing it.
\<close>

theorem schedule_requires_providers:
  "(t \<in> set tasks \<and> product \<in> set (requires t)
      \<and> (\<forall>p\<in>set tasks. product \<notin> set (provides p))
     \<longrightarrow> (\<exists>n q. run tasks = (Some (UnsatisfiedDependencyError n q), [])))
   \<and> (schedule tasks = Inr order
     \<longrightarrow> mset order = mset tasks
         \<and> run tasks = (None, map task_name order)
         \<and> (\<forall>i<length order. \<forall>j<length order.
               (\<exists>q. q \<in> set (requires (order ! j)) \<and> q \<in> set (provides (order ! i)))
               \<longrightarrow> i < j))
   \<and> {PythonInterpreter_type, REQUIREMENTS_PEX_type, PYTHON_SOURCES_type}
       \<subseteq> set (prepare super_prepare rm)"
proof (intro conjI impI)
  assume a: "t \<in> set tasks \<and> product \<in> set (requires t)
      \<and> (\<forall>p\<in>set tasks. product \<notin> set (provides p))"
  then obtain n q where "schedule tasks = Inl (UnsatisfiedDependencyError n q)"
    using schedule_unsatisfied [of t tasks product] by blast
  then show "\<exists>n q. run tasks = (Some (UnsatisfiedDependencyError n q), [])"
    by (simp add: run_def)
next
  assume s: "schedule tasks = Inr order"
  from schedule_order [OF s] show "mset order = mset tasks" by simp
  from s show "run tasks = (None, map task_name order)" by (simp add: run_def)
  from schedule_order [OF s] have w: "well_ordered order" by simp
  show "\<forall>i<length order. \<forall>j<length order.
          (\<exists>q. q \<in> set (requires (order ! j)) \<and> q \<in> set (provides (order ! i)))
          \<longrightarrow> i < j"
  proof (intro allI impI)
    fix i j
    assume i: "i < length order" and j: "j < length order"
      and q: "\<exists>q. q \<in> set (requires (order ! j)) \<and> q \<in> set (provides (order ! i))"
    show "i < j"
    proof (rule ccontr)
      assume "\<not> i < j"
      then have "j \<le> i" by simp
      from well_ordered_nth [OF w this i] q show False by blast
    qed
  qed
next
  show "{PythonInterpreter_type, REQUIREMENTS_PEX_type, PYTHON_SOURCES_type}
       \<subseteq> set (prepare super_prepare rm)" by (rule prepare_requires)
qed

theorem schedule_requires_providers_witness:
  "python_run_task \<in> set [python_run_task]
   \<and> PythonInterpreter_type \<in> set (requires python_run_task)
   \<and> provides python_run_task = []
   \<and> (\<exists>n q. run [python_run_task] = (Some (UnsatisfiedDependencyError n q), []))
   \<and> schedule python_tasks =
        Inr [\<lparr>task_name = ''interpreter'', requires = [], provides = [PythonInterpreter_type]\<rparr>,
             \<lparr>task_name = ''sources'', requires = [PythonInterpreter_type],
               provides = [PYTHON_SOURCES_type]\<rparr>,
             \<lparr>task_name = ''requirements'', requires = [PythonInterpreter_type],
               provides = [REQUIREMENTS_PEX_type]\<rparr>,
             python_run_task]
   \<and> run python_tasks = (None, [''interpreter'', ''sources'', ''requirements'', ''py''])"
proof -
  let ?order = "[\<lparr>task_name = ''interpreter'', requires = [], provides = [PythonInterpreter_type]\<rparr>,
             \<lparr>task_name = ''sources'', requires = [PythonInterpreter_type],
               provides = [PYTHON_SOURCES_type]\<rparr>,
             \<lparr>task_name = ''requirements'', requires = [PythonInterpreter_type],
               provides = [REQUIREMENTS_PEX_type]\<rparr>,
             python_run_task]"
  have r: "PythonInterpreter_type \<in> set (requires python_run_task)"
    by (simp add: python_run_task_def prepare_def require_data_def)
  have p: "provides python_run_task = []"
    by (simp add: python_run_task_def)
  have h: "python_run_task \<in> set [python_run_task]
      \<and> PythonInterpreter_type \<in> set (requires python_run_task)
      \<and> (\<forall>p\<in>set [python_run_task]. PythonInterpreter_type \<notin> set (provides p))"
    using r p by simp
  have u: "\<exists>n q. run [python_run_task] = (Some (UnsatisfiedDependencyError n q), [])"
    by (rule schedule_requires_providers
              [of python_run_task "[python_run_task]" PythonInterpreter_type "[]" "\<lambda>rm. rm" "[]",
               THEN conjunct1, THEN mp, OF h])
  have s: "schedule python_tasks = Inr ?order" by (rule schedule_python_tasks)
  from schedule_requires_providers
         [of python_run_task python_tasks PythonInterpreter_type ?order "\<lambda>rm. rm" "[]",
          THEN conjunct2, THEN conjunct1, THEN mp, OF s]
  have "run python_tasks = (None, map task_name ?order)" by (rule conjunct2 [THEN conjunct1])
  then have e: "run python_tasks = (None, [''interpreter'', ''sources'', ''requirements'', ''py''])"
    by (simp add: python_run_task_def)
  from r p u s e show ?thesis by simp
qed

section \<open>Graph mutation and the target cache\<close>

lemma run_callbacks_fold:
  "foldl (\<lambda>c' cb. run_callback cb c') c cbs = (if cbs = [] then c else clear_target_cache c)"
proof (induction cbs arbitrary: c)
  case Nil
  then show ?case by simp
next
  case (Cons cb cbs)
  have "run_callback cb c = clear_target_cache c" by (cases cb) simp
  with Cons show ?case by (simp add: clear_target_cache_def)
qed

lemma fire_invalidation_callbacks_eq:
  "fire_invalidation_callbacks c =
     (if invalidation_callbacks (build_graph c) = [] then c else clear_target_cache c)"
  by (simp add: fire_invalidation_callbacks_def run_callbacks_fold)

lemma inject_synthetic_target_facts:
  "target_roots (fst (inject_synthetic_target a deps df c)) = target_roots c"
  "invalidation_callbacks (build_graph (fst (inject_synthetic_target a deps df c)))
     = invalidation_callbacks (build_graph c)"
  "targets_cache c = Map.empty \<Longrightarrow>
     targets_cache (fst (inject_synthetic_target a deps df c)) = Map.empty"
  "invalidation_callbacks (build_graph c) \<noteq> [] \<Longrightarrow>
     fst (inject_synthetic_target a deps df c) = c
     \<or> targets_cache (fst (inject_synthetic_target a deps df c)) = Map.empty"
  "snd (inject_synthetic_target a deps df c) = Inr x \<Longrightarrow>
     a \<in> set (synthetic_addresses (build_graph (fst (inject_synthetic_target a deps df c))))"
  "snd (inject_synthetic_target a deps df c) = Inl e \<Longrightarrow>
     fst (inject_synthetic_target a deps df c) = c"
  by (auto simp: inject_synthetic_target_def Let_def fire_invalidation_callbacks_eq
      clear_target_cache_def set_ordered_set_update split: if_splits)

lemma inject_target_facts:
  "invalidation_callbacks (build_graph (fst (inject_target a deps c)))
     = invalidation_callbacks (build_graph c)"
  "invalidation_callbacks (build_graph c) \<noteq> [] \<Longrightarrow>
     fst (inject_target a deps c) = c
     \<or> targets_cache (fst (inject_target a deps c)) = Map.empty"
  "snd (inject_target a deps c) = Inl e \<Longrightarrow> fst (inject_target a deps c) = c"
  by (auto simp: inject_target_def Let_def fire_invalidation_callbacks_eq
      clear_target_cache_def split: if_splits)

lemma mutate_graph_facts:
  "invalidation_callbacks (build_graph (fst (mutate_graph m c)))
     = invalidation_callbacks (build_graph c)"
  "invalidation_callbacks (build_graph c) \<noteq> [] \<Longrightarrow>
     fst (mutate_graph m c) = c \<or> targets_cache (fst (mutate_graph m c)) = Map.empty"
  "snd (mutate_graph m c) = Inl e \<Longrightarrow> fst (mutate_graph m c) = c"
  by (cases m; simp add: inject_target_facts inject_synthetic_target_facts)+

lemma cache_coherent_empty: "targets_cache c = Map.empty \<Longrightarrow> cache_coherent c"
  by (simp add: cache_coherent_def)

lemma add_new_target_fst:
  "fst (add_new_target a tb deps df c) =
     fst (inject_synthetic_target a deps df
       (let c1 = clear_target_cache c;
            rel_target_base = (case tb of None \<Rightarrow> spec_path a
                               | Some b \<Rightarrow> if b = [] then spec_path a else b);
            abs_target_base = path_join (buildroot c1) rel_target_base;
            c2 = (if abs_target_base \<notin> set (directories c1)
                  then c1\<lparr>directories := directories c1 @ [abs_target_base]\<rparr> else c1)
        in (if rel_target_base \<notin> set (source_roots c2)
            then c2\<lparr>source_roots := source_roots c2 @ [rel_target_base]\<rparr> else c2)))"
  and add_new_target_snd:
  "snd (add_new_target a tb deps df c) =
     (case snd (inject_synthetic_target a deps df
       (let c1 = clear_target_cache c;
            rel_target_base = (case tb of None \<Rightarrow> spec_path a
                               | Some b \<Rightarrow> if b = [] then spec_path a else b);
            abs_target_base = path_join (buildroot c1) rel_target_base;
            c2 = (if abs_target_base \<notin> set (directories c1)
                  then c1\<lparr>directories := directories c1 @ [abs_target_base]\<rparr> else c1)
        in (if rel_target_base \<notin> set (source_roots c2)
            then c2\<lparr>source_roots := source_roots c2 @ [rel_target_base]\<rparr> else c2))) of
        Inl e \<Rightarrow> Inl e | Inr t \<Rightarrow> Inr a)"
  by (simp_all add: add_new_target_def Let_def split_def split: sum.splits)

lemma add_new_target_cache:
  "targets_cache (fst (add_new_target a tb deps df c)) = Map.empty"
  unfolding add_new_target_fst
  by (rule inject_synthetic_target_facts(3)) (simp add: Let_def clear_target_cache_def)

lemma add_new_target_synthetic:
  assumes "snd (add_new_target a tb deps df c) = Inr x"
  shows "a \<in> set (synthetic_addresses (build_graph (fst (add_new_target a tb deps df c))))"
proof -
  from assms obtain t where "snd (inject_synthetic_target a deps df
       (let c1 = clear_target_cache c;
            rel_target_base = (case tb of None \<Rightarrow> spec_path a
                               | Some b \<Rightarrow> if b = [] then spec_path a else b);
            abs_target_base = path_join (buildroot c1) rel_target_base;
            c2 = (if abs_target_base \<notin> set (directories c1)
                  then c1\<lparr>directories := directories c1 @ [abs_target_base]\<rparr> else c1)
        in (if rel_target_base \<notin> set (source_roots c2)
            then c2\<lparr>source_roots := source_roots c2 @ [rel_target_base]\<rparr> else c2))) = Inr t"
    unfolding add_new_target_snd by (auto split: sum.splits)
  then show ?thesis
    unfolding add_new_target_fst by (rule inject_synthetic_target_facts(5))
qed

lemma targets_empty_cache:
  "targets_cache c = Map.empty \<Longrightarrow> snd (targets c None kw) = unfiltered_targets c kw"
  by (simp add: targets_def Let_def py_filter_def)

lemma reachable_refl: "A \<subseteq> reachable g A"
  by (auto simp: reachable_def)

lemma synthetic_in_unfiltered_targets:
  assumes "a \<in> set (synthetic_addresses (build_graph c))"
    and "get_concrete_derived_from (build_graph c) a
           \<in> reachable (build_graph c) (set (target_roots c))"
  shows "a \<in> set (unfiltered_targets c kw)"
proof -
  let ?S = "{s \<in> set (synthetic_addresses (build_graph c)).
              get_concrete_derived_from (build_graph c) s
                \<in> reachable (build_graph c) (set (target_roots c))}"
  from assms have "a \<in> ?S" by simp
  moreover have "?S \<subseteq> reachable (build_graph c) ?S" by (rule reachable_refl)
  ultimately have "a \<in> reachable (build_graph c) ?S" by (rule subsetD [rotated])
  then show ?thesis unfolding set_unfiltered_targets by (rule UnI2)
qed

lemma mutate_graph_coherent:
  assumes "ClearTargetCacheHandle \<in> set (invalidation_callbacks (build_graph c))"
    and "cache_coherent c"
  shows "cache_coherent (fst (mutate_graph m c))"
proof -
  from assms(1) have "invalidation_callbacks (build_graph c) \<noteq> []" by auto
  from mutate_graph_facts(2) [OF this, of m] show ?thesis
  proof
    assume "fst (mutate_graph m c) = c"
    with assms(2) show ?thesis by simp
  next
    assume "targets_cache (fst (mutate_graph m c)) = Map.empty"
    then show ?thesis by (rule cache_coherent_empty)
  qed
qed


lemma context_gen_cached_fields:
  "build_graph context_gen_cached =
     \<lparr>target_dependencies_by_address =
        [(''src:a'', [''src:b'']), (''src:b'', []), (''src:x'', []),
         (''gen:s'', [''gen:t'']), (''gen:t'', [])],
      synthetic_addresses = [''gen:s''],
      derived_from_by_derivative = [(''gen:s'', ''src:b'')],
      invalidation_callbacks = [ClearTargetCacheHandle]\<rparr>"
  "target_roots context_gen_cached = [''src:a'']"
  "buildroot context_gen_cached = ''/buildroot''"
  "source_roots context_gen_cached = []"
  "directories context_gen_cached = []"
  "targets_cache context_gen_cached [] = Some [''src:a'', ''src:b'', ''gen:s'', ''gen:t'']"
  by (simp_all add: context_gen_cached_def context_gen_def graph_gen_def targets_def
      Context_init_def replace_targets_def clear_target_cache_def unfiltered_targets_def
      closure_for_targets_def dependencies_def add_invalidation_callback_def
      ordered_set_update_def py_filter_def get_concrete_derived_from_def Let_def)

lemmas add_new_target_eval =
  add_new_target_fst add_new_target_snd inject_synthetic_target_def contains_address_def
  creates_cycle_def closure_for_targets_def dependencies_def fire_invalidation_callbacks_eq
  clear_target_cache_def spec_path_def path_join_def ordered_set_update_def Let_def

text \<open>
  C2, as the code has it: every structural mutation of the target graph made through the
  context leaves the memoized targets cache empty. \<open>Context.add_new_target\<close> clears the
  cache before it returns (also when the injection is refused), so the next
  \<open>Context.targets()\<close> call recomputes \<open>_unfiltered_targets\<close> on the mutated graph, and the
  recomputed list holds the newly injected target whenever the target's concrete
  derived-from target is reachable from the target roots. The context registers its
  cache-clearing handle on the build graph at construction; with the handle registered,
  every injection made directly on the graph (of an address or of a synthetic target) either
  changes nothing or leaves the cache empty, keeps the handle registered, and keeps the cache
  coherent with the graph.
\<close>

theorem add_new_target_invalidates_cache:
  "targets_cache (fst (add_new_target a tb deps df c)) = Map.empty
   \<and> snd (targets (fst (add_new_target a tb deps df c)) None kw)
       = unfiltered_targets (fst (add_new_target a tb deps df c)) kw
   \<and> (snd (add_new_target a tb deps df c) = Inr a
       \<and> get_concrete_derived_from (build_graph (fst (add_new_target a tb deps df c))) a
           \<in> reachable (build_graph (fst (add_new_target a tb deps df c)))
                (set (target_roots (fst (add_new_target a tb deps df c))))
       \<longrightarrow> a \<in> set (snd (targets (fst (add_new_target a tb deps df c)) None kw)))
   \<and> ClearTargetCacheHandle
       \<in> set (invalidation_callbacks (build_graph (Context_init g roots root srcs dirs)))
   \<and> (ClearTargetCacheHandle \<in> set (invalidation_callbacks (build_graph c))
       \<longrightarrow> (fst (mutate_graph m c) = c \<or> targets_cache (fst (mutate_graph m c)) = Map.empty)
           \<and> ClearTargetCacheHandle
               \<in> set (invalidation_callbacks (build_graph (fst (mutate_graph m c))))
           \<and> (cache_coherent c \<longrightarrow> cache_coherent (fst (mutate_graph m c))))"
proof -
  let ?c = "fst (add_new_target a tb deps df c)"
  have 1: "targets_cache ?c = Map.empty" by (rule add_new_target_cache)
  then have 2: "snd (targets ?c None kw) = unfiltered_targets ?c kw"
    by (rule targets_empty_cache)
  have 3: "snd (add_new_target a tb deps df c) = Inr a
       \<and> get_concrete_derived_from (build_graph ?c) a
           \<in> reachable (build_graph ?c) (set (target_roots ?c))
       \<longrightarrow> a \<in> set (snd (targets ?c None kw))"
  proof
    assume h: "snd (add_new_target a tb deps df c) = Inr a
       \<and> get_concrete_derived_from (build_graph ?c) a
           \<in> reachable (build_graph ?c) (set (target_roots ?c))"
    from h have "a \<in> set (synthetic_addresses (build_graph ?c))"
      by (intro add_new_target_synthetic) (rule conjunct1)
    from synthetic_in_unfiltered_targets [OF this h [THEN conjunct2]]
    show "a \<in> set (snd (targets ?c None kw))" unfolding 2 .
  qed
  have 4: "ClearTargetCacheHandle
       \<in> set (invalidation_callbacks (build_graph (Context_init g roots root srcs dirs)))"
    by (simp add: Context_init_def replace_targets_def clear_target_cache_def
        add_invalidation_callback_def)
  have 5: "ClearTargetCacheHandle \<in> set (invalidation_callbacks (build_graph c))
       \<longrightarrow> (fst (mutate_graph m c) = c \<or> targets_cache (fst (mutate_graph m c)) = Map.empty)
           \<and> ClearTargetCacheHandle
               \<in> set (invalidation_callbacks (build_graph (fst (mutate_graph m c))))
           \<and> (cache_coherent c \<longrightarrow> cache_coherent (fst (mutate_graph m c)))"
  proof
    assume r: "ClearTargetCacheHandle \<in> set (invalidation_callbacks (build_graph c))"
    then have ne: "invalidation_callbacks (build_graph c) \<noteq> []" by auto
    have a: "fst (mutate_graph m c) = c \<or> targets_cache (fst (mutate_graph m c)) = Map.empty"
      by (rule mutate_graph_facts(2) [OF ne])
    have b: "ClearTargetCacheHandle
               \<in> set (invalidation_callbacks (build_graph (fst (mutate_graph m c))))"
      using r by (simp add: mutate_graph_facts(1))
    have d: "cache_coherent c \<longrightarrow> cache_coherent (fst (mutate_graph m c))"
      using mutate_graph_coherent [OF r] by (rule impI)
    from a b d show "(fst (mutate_graph m c) = c \<or> targets_cache (fst (mutate_graph m c)) = Map.empty)
           \<and> ClearTargetCacheHandle
               \<in> set (invalidation_callbacks (build_graph (fst (mutate_graph m c))))
           \<and> (cache_coherent c \<longrightarrow> cache_coherent (fst (mutate_graph m c)))"
      by (intro conjI)
  qed
  from 1 2 3 4 5 show ?thesis by (intro conjI)
qed

theorem add_new_target_invalidates_cache_witness:
  "targets_cache context_gen_cached [] = Some [''src:a'', ''src:b'', ''gen:s'', ''gen:t'']
   \<and> targets_cache (fst (add_new_target ''gen:n'' None [] (Some ''src:b'') context_gen_cached)) []
       = None
   \<and> snd (add_new_target ''gen:n'' None [] (Some ''src:b'') context_gen_cached) = Inr ''gen:n''
   \<and> get_concrete_derived_from
        (build_graph (fst (add_new_target ''gen:n'' None [] (Some ''src:b'') context_gen_cached)))
        ''gen:n''
       \<in> reachable
            (build_graph (fst (add_new_target ''gen:n'' None [] (Some ''src:b'') context_gen_cached)))
            (set (target_roots
                    (fst (add_new_target ''gen:n'' None [] (Some ''src:b'') context_gen_cached))))
   \<and> ''gen:n'' \<in> set (snd (targets
         (fst (add_new_target ''gen:n'' None [] (Some ''src:b'') context_gen_cached)) None []))
   \<and> ClearTargetCacheHandle \<in> set (invalidation_callbacks (build_graph context_gen_cached))
   \<and> cache_coherent context_gen_cached
   \<and> targets_cache (fst (mutate_graph (Inject ''src:new'' [''src:a'']) context_gen_cached)) []
       = None
   \<and> cache_coherent (fst (mutate_graph (Inject ''src:new'' [''src:a'']) context_gen_cached))"
proof -
  let ?c = "fst (add_new_target ''gen:n'' None [] (Some ''src:b'') context_gen_cached)"
  let ?d = "fst (mutate_graph (Inject ''src:new'' [''src:a'']) context_gen_cached)"
  note t = add_new_target_invalidates_cache
     [where a = "''gen:n''" and tb = None and deps = "[]" and df = "Some ''src:b''"
        and c = context_gen_cached and kw = "[]" and g = graph_gen and roots = "[]"
        and root = "[]" and srcs = "[]" and dirs = "[]"
        and m = "Inject ''src:new'' [''src:a'']"]
  have before: "targets_cache context_gen_cached []
                  = Some [''src:a'', ''src:b'', ''gen:s'', ''gen:t'']"
    by (rule context_gen_cached_fields(6))
  have g: "build_graph ?c =
      \<lparr>target_dependencies_by_address =
         [(''src:a'', [''src:b'']), (''src:b'', []), (''src:x'', []),
          (''gen:s'', [''gen:t'']), (''gen:t'', []), (''gen:n'', [])],
       synthetic_addresses = [''gen:s'', ''gen:n''],
       derived_from_by_derivative = [(''gen:s'', ''src:b''), (''gen:n'', ''src:b'')],
       invalidation_callbacks = [ClearTargetCacheHandle]\<rparr>"
    by (simp add: add_new_target_eval context_gen_cached_fields)
  have r: "target_roots ?c = [''src:a'']"
    by (simp add: add_new_target_eval context_gen_cached_fields)
  have ok: "snd (add_new_target ''gen:n'' None [] (Some ''src:b'') context_gen_cached)
              = Inr ''gen:n''"
    by (simp add: add_new_target_eval context_gen_cached_fields)
  have "get_concrete_derived_from (build_graph ?c) ''gen:n''
          \<in> set (closure_for_targets (build_graph ?c) (target_roots ?c) [])"
    unfolding g r
    by (simp add: closure_for_targets_def dependencies_def get_concrete_derived_from_def)
  then have h: "get_concrete_derived_from (build_graph ?c) ''gen:n''
          \<in> reachable (build_graph ?c) (set (target_roots ?c))"
    by (simp add: closure_for_targets_reachable)
  have after: "targets_cache ?c [] = None"
    by (simp add: t [THEN conjunct1])
  have m: "''gen:n'' \<in> set (snd (targets ?c None []))"
    by (rule t [THEN conjunct2, THEN conjunct2, THEN conjunct1, THEN mp, OF conjI, OF ok h])
  have cb: "ClearTargetCacheHandle \<in> set (invalidation_callbacks (build_graph context_gen_cached))"
    by (simp add: context_gen_cached_fields)
  have coh: "cache_coherent context_gen_cached"
    unfolding context_gen_cached_def context_gen_def
    by (rule cache_coherent_targets [OF cache_coherent_init])
  note u = t [THEN conjunct2, THEN conjunct2, THEN conjunct2, THEN conjunct2, THEN mp, OF cb]
  have "build_graph ?d \<noteq> build_graph context_gen_cached"
    by (simp add: inject_target_def contains_address_def creates_cycle_def
        closure_for_targets_def dependencies_def fire_invalidation_callbacks_eq
        clear_target_cache_def Let_def context_gen_cached_fields)
  then have "?d \<noteq> context_gen_cached" by auto
  with u [THEN conjunct1] have "targets_cache ?d = Map.empty" by simp
  then have e: "targets_cache ?d [] = None" by simp
  have coh': "cache_coherent ?d"
    by (rule u [THEN conjunct2, THEN conjunct2, THEN mp, OF coh])
  from before after ok h m cb coh e coh' show ?thesis by (intro conjI)
qed

text \<open>
  C2, as stated, fails: the synthetic target \<open>gen:n\<close> added with \<open>derived_from = src:x\<close>,
  where \<open>src:x\<close> is in the graph but not reachable from the root \<open>src:a\<close>, is injected (it is
  among the synthetic addresses of the graph) and yet is not among the targets the next
  \<open>Context.targets()\<close> call returns.
\<close>

theorem add_new_target_not_in_targets_counterexample:
  "snd (add_new_target ''gen:n'' None [] (Some ''src:x'') context_gen_cached) = Inr ''gen:n''
   \<and> ''gen:n'' \<in> set (synthetic_addresses (build_graph
         (fst (add_new_target ''gen:n'' None [] (Some ''src:x'') context_gen_cached))))
   \<and> ''gen:n'' \<notin> set (snd (targets
         (fst (add_new_target ''gen:n'' None [] (Some ''src:x'') context_gen_cached)) None []))"
proof -
  let ?c = "fst (add_new_target ''gen:n'' None [] (Some ''src:x'') context_gen_cached)"
  have g: "build_graph ?c =
      \<lparr>target_dependencies_by_address =
         [(''src:a'', [''src:b'']), (''src:b'', []), (''src:x'', []),
          (''gen:s'', [''gen:t'']), (''gen:t'', []), (''gen:n'', [])],
       synthetic_addresses = [''gen:s'', ''gen:n''],
       derived_from_by_derivative = [(''gen:s'', ''src:b''), (''gen:n'', ''src:x'')],
       invalidation_callbacks = [ClearTargetCacheHandle]\<rparr>"
    by (simp add: add_new_target_eval context_gen_cached_fields)
  have r: "target_roots ?c = [''src:a'']"
    by (simp add: add_new_target_eval context_gen_cached_fields)
  have ok: "snd (add_new_target ''gen:n'' None [] (Some ''src:x'') context_gen_cached)
              = Inr ''gen:n''"
    by (simp add: add_new_target_eval context_gen_cached_fields)
  have s: "''gen:n'' \<in> set (synthetic_addresses (build_graph ?c))"
    unfolding g by simp
  have "snd (targets ?c None []) = unfiltered_targets ?c []"
    by (rule targets_empty_cache [OF add_new_target_cache])
  also have "\<dots> = [''src:a'', ''src:b'', ''gen:s'', ''gen:t'']"
    unfolding unfiltered_targets_def g r
    by (simp add: closure_for_targets_def dependencies_def get_concrete_derived_from_def
        ordered_set_update_def)
  finally have n: "''gen:n'' \<notin> set (snd (targets ?c None []))" by simp
  from ok s n show ?thesis by (intro conjI)
qed

end
